theory Spec2Isabelle
  imports Main
begin

section \<open>Text and character classes\<close>

text \<open>
  A line of the log is a Python \<open>str\<close>. It is modelled as a \<open>string\<close> whose characters are
  read as the code points below 256. On these code points the classes of Python's \<open>re\<close>
  module (for \<open>str\<close> patterns, without flags other than \<open>VERBOSE\<close>) are:
  \<^item> \<open>\d\<close>: the decimal digits \<open>0\<close> to \<open>9\<close>;
  \<^item> \<open>\s\<close>: code points 9 to 13, 28 to 32, 133 and 160;
  \<^item> \<open>\w\<close>: the ASCII letters and digits, the underscore, and the letters and numeric
    characters of the upper half (170, 178, 179, 181, 185, 186, 188 to 190, 192 to 214,
    216 to 246, 248 to 255);
  \<^item> \<open>.\<close>: every character but the newline.
\<close>

definition is_digit :: "char \<Rightarrow> bool" where
  "is_digit c = (let n = (of_char c :: nat) in 48 \<le> n \<and> n \<le> 57)"

definition is_alpha :: "char \<Rightarrow> bool" where
  "is_alpha c =
     (let n = (of_char c :: nat) in (65 \<le> n \<and> n \<le> 90) \<or> (97 \<le> n \<and> n \<le> 122))"

definition is_space :: "char \<Rightarrow> bool" where
  "is_space c =
     (let n = (of_char c :: nat)
      in (9 \<le> n \<and> n \<le> 13) \<or> (28 \<le> n \<and> n \<le> 32) \<or> n = 133 \<or> n = 160)"

definition is_word :: "char \<Rightarrow> bool" where
  "is_word c =
     (let n = (of_char c :: nat)
      in (48 \<le> n \<and> n \<le> 57) \<or> (65 \<le> n \<and> n \<le> 90) \<or> (97 \<le> n \<and> n \<le> 122) \<or> n = 95
         \<or> n = 170 \<or> n = 178 \<or> n = 179 \<or> n = 181 \<or> n = 185 \<or> n = 186
         \<or> (188 \<le> n \<and> n \<le> 190) \<or> (192 \<le> n \<and> n \<le> 214)
         \<or> (216 \<le> n \<and> n \<le> 246) \<or> 248 \<le> n)"

definition is_host :: "char \<Rightarrow> bool" where
  "is_host c = (is_alpha c \<or> is_digit c \<or> c = CHR ''-'')"

text \<open>The character sets the six patterns of \<open>capture_oom_events_from_stdin\<close> use.\<close>

datatype cclass =
    Digit       \<comment> \<open>\<open>\d\<close>\<close>
  | Space       \<comment> \<open>\<open>\s\<close>\<close>
  | Word        \<comment> \<open>\<open>\w\<close>\<close>
  | Dot         \<comment> \<open>\<open>.\<close>\<close>
  | Host        \<comment> \<open>\<open>[a-zA-Z0-9\-]\<close>\<close>
  | Alpha       \<comment> \<open>\<open>[a-zA-Z]\<close>\<close>
  | DashWord    \<comment> \<open>\<open>[-\w]\<close>\<close>
  | NotComma    \<comment> \<open>\<open>[^,]\<close>\<close>
  | Lit char    \<comment> \<open>a literal character\<close>

fun cc_mem :: "cclass \<Rightarrow> char \<Rightarrow> bool" where
  "cc_mem Digit c = is_digit c"
| "cc_mem Space c = is_space c"
| "cc_mem Word c = is_word c"
| "cc_mem Dot c = (c \<noteq> CHR 0x0A)"
| "cc_mem Host c = is_host c"
| "cc_mem Alpha c = is_alpha c"
| "cc_mem DashWord c = (c = CHR ''-'' \<or> is_word c)"
| "cc_mem NotComma c = (c \<noteq> CHR '','')"
| "cc_mem (Lit a) c = (c = a)"

section \<open>Patterns and the backtracking matcher\<close>

text \<open>
  The fragment of Python's pattern language the source uses: the anchors \<open>^\<close> and \<open>$\<close>, a
  character of a class, a run of literal characters, a greedy repetition of a class
  (\<open>*\<close>, \<open>+\<close>, \<open>{n}\<close>), a greedy optional group \<open>(?:...)?\<close>, a capturing group and a
  sequence.
\<close>

datatype regex =
    Bol
  | Eol
  | Chr cclass
  | Str string
  | Rep cclass nat "nat option"
  | Opt regex
  | Grp nat regex
  | Cat "regex list"

type_synonym caps = "(nat \<times> string) list"

type_synonym cont = "nat \<Rightarrow> string \<Rightarrow> caps \<Rightarrow> caps option"

text \<open>
  \<open>rep c lo hi pos s caps k\<close>: the greedy repetition of class \<open>c\<close>, at least \<open>lo\<close> and at
  most \<open>hi\<close> times, at position \<open>pos\<close> with \<open>s\<close> the text still to read. It takes as many
  characters as it can and gives one back at a time until the rest of the pattern
  (the continuation \<open>k\<close>) matches.
\<close>

fun rep :: "cclass \<Rightarrow> nat \<Rightarrow> nat option \<Rightarrow> nat \<Rightarrow> string \<Rightarrow> caps \<Rightarrow> cont \<Rightarrow> caps option" where
  "rep c lo hi pos [] caps k = (if lo = 0 then k pos [] caps else None)"
| "rep c lo hi pos (x # xs) caps k =
     (if hi \<noteq> Some 0 \<and> cc_mem c x then
        (case rep c (lo - 1) (map_option (\<lambda>h. h - 1) hi) (Suc pos) xs caps k of
           Some r \<Rightarrow> Some r
         | None \<Rightarrow> if lo = 0 then k pos (x # xs) caps else None)
      else if lo = 0 then k pos (x # xs) caps else None)"

fun str_prefix :: "string \<Rightarrow> string \<Rightarrow> string option" where
  "str_prefix [] s = Some s"
| "str_prefix (a # as) [] = None"
| "str_prefix (a # as) (x # xs) = (if a = x then str_prefix as xs else None)"

text \<open>
  \<open>m r pos s caps k\<close>: match \<open>r\<close> at position \<open>pos\<close> of the line, \<open>s\<close> being the text from
  there on and \<open>caps\<close> the groups captured so far, then go on with \<open>k\<close>. The first way to
  match that lets \<open>k\<close> succeed wins, as in Python's backtracking engine. \<open>^\<close> matches at
  the start of the string only and \<open>$\<close> at its end or before a newline that ends it
  (no \<open>MULTILINE\<close> flag).
\<close>

fun m :: "regex \<Rightarrow> nat \<Rightarrow> string \<Rightarrow> caps \<Rightarrow> cont \<Rightarrow> caps option"
  and ms :: "regex list \<Rightarrow> nat \<Rightarrow> string \<Rightarrow> caps \<Rightarrow> cont \<Rightarrow> caps option" where
  "m Bol pos s caps k = (if pos = 0 then k pos s caps else None)"
| "m Eol pos s caps k = (if s = [] \<or> s = [CHR 0x0A] then k pos s caps else None)"
| "m (Chr c) pos s caps k =
     (case s of [] \<Rightarrow> None | x # xs \<Rightarrow> if cc_mem c x then k (Suc pos) xs caps else None)"
| "m (Str lit) pos s caps k =
     (case str_prefix lit s of None \<Rightarrow> None | Some s' \<Rightarrow> k (pos + length lit) s' caps)"
| "m (Rep c lo hi) pos s caps k = rep c lo hi pos s caps k"
| "m (Opt r) pos s caps k =
     (case m r pos s caps k of Some res \<Rightarrow> Some res | None \<Rightarrow> k pos s caps)"
| "m (Grp n r) pos s caps k =
     m r pos s caps (\<lambda>pos' s' caps'. k pos' s' ((n, take (pos' - pos) s) # caps'))"
| "m (Cat rs) pos s caps k = ms rs pos s caps k"
| "ms [] pos s caps k = k pos s caps"
| "ms (r # rs) pos s caps k = m r pos s caps (\<lambda>pos' s' caps'. ms rs pos' s' caps' k)"

text \<open>
  \<open>pattern.search(line)\<close>: the first position of the line, from the left, where the
  pattern matches; \<open>None\<close> when there is none.
\<close>

fun search_from :: "regex \<Rightarrow> nat \<Rightarrow> string \<Rightarrow> caps option" where
  "search_from r pos [] = m r pos [] [] (\<lambda>_ _ caps. Some caps)"
| "search_from r pos (x # xs) =
     (case m r pos (x # xs) [] (\<lambda>_ _ caps. Some caps) of
        Some res \<Rightarrow> Some res
      | None \<Rightarrow> search_from r (Suc pos) xs)"

definition search :: "regex \<Rightarrow> string \<Rightarrow> caps option" where
  "search r line = search_from r 0 line"

text \<open>
  \<open>r.group(n)\<close>. Python gives \<open>None\<close> for a group that took no part in the match; the
  three groups of every pattern below lie outside its optional parts, so that every
  match sets them (lemma \<open>kill_groups_set\<close>).
\<close>

definition group :: "caps \<Rightarrow> nat \<Rightarrow> string" where
  "group c n = (case map_of c n of Some g \<Rightarrow> g | None \<Rightarrow> [])"

section \<open>The patterns of \<open>capture_oom_events_from_stdin\<close>\<close>

definition process_name_regex :: regex where
  "process_name_regex = Cat
     [Bol, Rep Digit 1 None, Chr Space, Rep Host 1 None, Chr Space, Rep Dot 0 None,
      Str '']'', Chr Space, Grp 1 (Rep Dot 1 None), Chr Space, Str ''invoked'', Chr Space,
      Str ''oom-killer:'']"

definition oom_regex_docker :: regex where
  "oom_regex_docker = Cat
     [Bol, Grp 1 (Rep Digit 1 None), Chr Space, Grp 2 (Rep Host 1 None), Chr Space,
      Rep Dot 0 None, Str ''Task in /docker/'', Grp 3 (Rep Word 12 (Some 12)),
      Rep Word 1 None, Str '' killed as a'']"

definition oom_regex_kubernetes :: regex where
  "oom_regex_kubernetes = Cat
     [Bol, Grp 1 (Rep Digit 1 None), Chr Space, Grp 2 (Rep Host 1 None), Chr Space,
      Rep Dot 0 None, Str ''Task'', Chr Space, Str ''in'', Chr Space, Str ''/kubepods/'',
      Opt (Cat [Rep Alpha 1 None, Str ''/'']),
      Str ''pod'', Rep DashWord 1 None, Str ''/'',
      Grp 3 (Cat [Rep Word 12 (Some 12), Opt (Rep Word 52 (Some 52))]),
      Rep Word 0 None, Chr Space,
      Str ''killed'', Chr Space, Str ''as'', Chr Space, Rep (Lit CHR ''a'') 0 None]"

definition oom_regex_kubernetes_containerd_systemd_cgroup :: regex where
  "oom_regex_kubernetes_containerd_systemd_cgroup = Cat
     [Bol, Grp 1 (Rep Digit 1 None), Chr Space, Grp 2 (Rep Host 1 None), Chr Space,
      Rep Dot 0 None, Str ''oom-kill:'', Rep Dot 0 None,
      Str ''task_memcg=/system.slice/'', Rep Dot 0 None, Str ''nerdctl-'',
      Grp 3 (Rep Word 64 (Some 64)), Rep Word 0 None, Str ''.scope,'', Rep Dot 0 None, Eol]"

definition oom_regex_kubernetes_structured :: regex where
  "oom_regex_kubernetes_structured = Cat
     [Bol, Grp 1 (Rep Digit 1 None), Chr Space, Grp 2 (Rep Host 1 None), Chr Space,
      Rep Dot 0 None, Str ''oom-kill:'', Rep Dot 0 None, Str ''task_memcg=/kubepods/'',
      Opt (Cat [Rep Alpha 1 None, Str ''/'']),
      Str ''pod'', Rep DashWord 1 None, Str ''/'',
      Grp 3 (Cat [Rep Word 12 (Some 12), Opt (Rep Word 52 (Some 52))]),
      Rep Word 0 None, Str '','', Rep Dot 0 None, Eol]"

definition oom_regex_kubernetes_systemd_cgroup :: regex where
  "oom_regex_kubernetes_systemd_cgroup = Cat
     [Bol, Grp 1 (Rep Digit 1 None), Chr Space, Grp 2 (Rep Host 1 None), Chr Space,
      Rep Dot 0 None, Str ''oom-kill:'', Rep Dot 0 None,
      Str ''task_memcg=/kubepods.slice/'', Rep NotComma 1 None, Str ''docker-'',
      Grp 3 (Rep Word 12 (Some 12)), Rep Word 1 None, Str ''.scope,'', Rep Dot 0 None, Eol]"

definition event_detail_regexes :: "regex list" where
  "event_detail_regexes =
     [oom_regex_docker,
      oom_regex_kubernetes,
      oom_regex_kubernetes_structured,
      oom_regex_kubernetes_systemd_cgroup,
      oom_regex_kubernetes_containerd_systemd_cgroup]"

section \<open>The scanner\<close>

text \<open>
  The exceptions that the modelled code can meet. \<open>Other\<close> stands for any exception that
  no \<open>except\<close> clause of the source names.
\<close>

datatype exn =
    APIError
  | RpcError
  | UnicodeDecodeError
  | JSONDecodeError
  | AttributeError
  | TypeError
  | ValueError
  | SystemExit nat
  | Other string

text \<open>
  \<open>int(r.group(1))\<close> on a run of decimal digits, which is all the group \<open>(\d+)\<close> can
  capture (lemma \<open>kill_groups_set\<close>). \<open>digits_value\<close> is the number the digits write.
  Python refuses to convert a text of more than \<open>sys.get_int_max_str_digits()\<close> digits,
  4300 unless the interpreter was told otherwise, leading zeros counted: \<open>int\<close> raises
  \<open>ValueError\<close> then.
\<close>

definition digit_val :: "char \<Rightarrow> int" where
  "digit_val c = int (of_char c) - 48"

definition digits_value :: "string \<Rightarrow> int" where
  "digits_value ds = foldl (\<lambda>n c. 10 * n + digit_val c) 0 ds"

definition int_max_str_digits :: nat where
  "int_max_str_digits = 4300"

definition py_int :: "string \<Rightarrow> exn + int" where
  "py_int ds =
     (if int_max_str_digits < length ds then Inl ValueError else Inr (digits_value ds))"

type_synonym occurrence = "int \<times> string \<times> string \<times> string"

text \<open>
  The inner \<open>for expression in event_detail_regexes\<close> loop: the first pattern of the list
  that matches the line gives the occurrence, and the \<open>break\<close> ends the loop.
\<close>

fun first_match :: "regex list \<Rightarrow> string \<Rightarrow> caps option" where
  "first_match [] line = None"
| "first_match (expression # rest) line =
     (case search expression line of
        Some r \<Rightarrow> Some r
      | None \<Rightarrow> first_match rest line)"

text \<open>
  The \<open>while True\<close> loop. The standard input is the list of the strings that the
  successive calls of \<open>readline\<close> return; the empty string is the end of the input, and
  so is the end of the list. \<open>process_name\<close> is the local variable of the generator. The
  result lists the tuples the generator yields, in order, and tells how it ends: \<open>None\<close>
  when the input is exhausted, \<open>Some e\<close> when the exception \<open>e\<close> leaves it. The only call
  of the loop that can raise on a matched line is \<open>int(r.group(1))\<close>, evaluated before the
  \<open>yield\<close>: the line yields nothing then, and no later line is read. A failure of
  \<open>readline\<close> itself is outside the model, whose input is the strings it returned.
\<close>

fun scan :: "string \<Rightarrow> string list \<Rightarrow> occurrence list \<times> exn option" where
  "scan process_name [] = ([], None)"
| "scan process_name (syslog # more) =
     (if syslog = [] then ([], None)
      else
        let process_name =
              (case search process_name_regex syslog of
                 Some r \<Rightarrow> group r 1
               | None \<Rightarrow> process_name)
        in case first_match event_detail_regexes syslog of
             Some r \<Rightarrow>
               (case py_int (group r 1) of
                  Inl e \<Rightarrow> ([], Some e)
                | Inr ts \<Rightarrow>
                    (case scan [] more of
                       (occs, ending) \<Rightarrow>
                         ((ts, group r 2, group r 3, process_name) # occs, ending)))
           | None \<Rightarrow> scan process_name more)"

definition capture_oom_events_from_stdin :: "string list \<Rightarrow> occurrence list \<times> exn option" where
  "capture_oom_events_from_stdin stdin = scan [] stdin"

section \<open>The runtime resolver\<close>

text \<open>
  The values that \<open>json.loads\<close> and the engine's \<open>inspect_container\<close> return: \<open>None\<close>,
  booleans, numbers, strings, lists and dictionaries. A dictionary lists one pair for
  each of its keys, in insertion order.
\<close>

datatype json =
    JNull
  | JBool bool
  | JNum int
  | JStr string
  | JArr "json list"
  | JObj "(string \<times> json) list"

text \<open>\<open>d.get(key, default)\<close>: only a dictionary has the method.\<close>

fun py_get :: "json \<Rightarrow> string \<Rightarrow> json \<Rightarrow> exn + json" where
  "py_get (JObj kvs) key dflt = Inr (case map_of kvs key of Some v \<Rightarrow> v | None \<Rightarrow> dflt)"
| "py_get _ key dflt = Inl AttributeError"

text \<open>
  \<open>for i in env\<close>: a list gives its elements, a string its characters, a dictionary its
  keys; nothing else is iterable.
\<close>

fun py_iter :: "json \<Rightarrow> exn + json list" where
  "py_iter (JArr xs) = Inr xs"
| "py_iter (JStr s) = Inr (map (\<lambda>c. JStr [c]) s)"
| "py_iter (JObj kvs) = Inr (map (\<lambda>kv. JStr (fst kv)) kvs)"
| "py_iter _ = Inl TypeError"

text \<open>\<open>name, _, value = i.partition("=")\<close>: split at the first \<open>=\<close>.\<close>

definition partition_eq :: "string \<Rightarrow> string \<times> string" where
  "partition_eq i =
     (takeWhile (\<lambda>c. c \<noteq> CHR ''='') i, drop 1 (dropWhile (\<lambda>c. c \<noteq> CHR ''='') i))"

fun env_loop :: "json list \<Rightarrow> (string \<rightharpoonup> string) \<Rightarrow> exn + (string \<rightharpoonup> string)" where
  "env_loop [] env_vars = Inr env_vars"
| "env_loop (i # more) env_vars =
     (case i of
        JStr s \<Rightarrow> (case partition_eq s of (name, val) \<Rightarrow> env_loop more (env_vars(name \<mapsto> val)))
      | _ \<Rightarrow> Inl AttributeError)"

definition get_container_env_as_dict :: "bool \<Rightarrow> json \<Rightarrow> exn + (string \<rightharpoonup> string)" where
  "get_container_env_as_dict is_cri_containerd container_inspect =
     (case py_get container_inspect (if is_cri_containerd then ''process'' else ''Config'') JNull of
        Inl e \<Rightarrow> Inl e
      | Inr config \<Rightarrow>
          (case py_get config (if is_cri_containerd then ''env'' else ''Env'') (JArr []) of
             Inl e \<Rightarrow> Inl e
           | Inr env \<Rightarrow>
               if config \<noteq> JNull then
                 (case py_iter env of
                    Inl e \<Rightarrow> Inl e
                  | Inr items \<Rightarrow> env_loop items Map.empty)
               else Inr Map.empty))"

section \<open>The event and its three sinks\<close>

text \<open>
  The named tuple \<open>LogLine\<close>. Its field \<open>instance\<close> is \<open>instance_name\<close> here, \<open>instance\<close> being a
  keyword of Isabelle.
\<close>

record log_line =
  timestamp :: int
  hostname :: string
  container_id :: string
  cluster :: string
  service :: string
  instance_name :: string
  process_name :: string
  mesos_container_id :: string
  mem_limit :: string

text \<open>\<open>env_vars.get(key, default)\<close> on the dictionary of strings.\<close>

definition env_get :: "(string \<rightharpoonup> string) \<Rightarrow> string \<Rightarrow> string \<Rightarrow> string" where
  "env_get env_vars key dflt = (case env_vars key of Some v \<Rightarrow> v | None \<Rightarrow> dflt)"

text \<open>Lines 287 to 301 of \<open>main\<close>: the event built from an occurrence and its environment.\<close>

definition make_log_line :: "string \<Rightarrow> occurrence \<Rightarrow> (string \<rightharpoonup> string) \<Rightarrow> log_line" where
  "make_log_line the_cluster occ env_vars =
     (case occ of (ts, host, cid, pname) \<Rightarrow>
        \<lparr> timestamp = ts,
          hostname = host,
          container_id = cid,
          cluster = the_cluster,
          service = env_get env_vars ''PAASTA_SERVICE'' ''unknown'',
          instance_name = env_get env_vars ''PAASTA_INSTANCE'' ''unknown'',
          process_name = pname,
          mesos_container_id = env_get env_vars ''MESOS_CONTAINER_NAME'' ''mesos-null'',
          mem_limit = env_get env_vars ''PAASTA_RESOURCE_MEM'' ''unknown'' \<rparr>)"

text \<open>
  What the program does to the outside, in the order it does it: the calls of \<open>print\<close>,
  of \<open>clog.log_line\<close>, of \<open>_log\<close>, of \<open>yelp_meteorite.events.emit_event\<close> and of the
  counter's \<open>count\<close>. A call is recorded when it is made, whether it returns or raises.
  \<open>Print s\<close> is a call of \<open>print\<close> with the message \<open>s\<close>; the stream it writes to and the
  text of the exception that the source prints after the message are left out.
\<close>

type_synonym dimensions = "(string \<times> string) list"

datatype effect =
    Print string
  | Clog_log_line string string
  | Paasta_log string string string string string string
  | Emit_event string dimensions
  | Counter_count string dimensions

text \<open>
  The collaborators of \<open>main\<close>, each a function that tells how the call ends: an
  exception, or the value returned. \<open>yelp_meteorite\<close> is \<open>None\<close> where the import failed,
  and \<open>clog_imported\<close> tells whether the import of \<open>clog\<close> succeeded.
  \<open>default_loglevel\<close> is the constant \<open>DEFAULT_LOGLEVEL\<close> of \<open>paasta_tools.utils\<close>.
\<close>

record metrics =
  get_pool :: "string \<Rightarrow> string \<Rightarrow> string \<Rightarrow> exn + string"
  emit_event :: "string \<Rightarrow> dimensions \<Rightarrow> exn option"
  counter_count :: "string \<Rightarrow> dimensions \<Rightarrow> exn option"

record world =
  clog_imported :: bool
  args_containerd :: bool
  get_cluster :: string
  default_loglevel :: string
  get_containerd_container :: "string \<Rightarrow> exn + string"
  decode_utf8 :: "string \<Rightarrow> exn + string"
  json_loads :: "string \<Rightarrow> exn + json"
  inspect_container :: "string \<Rightarrow> exn + json"
  clog_log_line :: "string \<Rightarrow> string \<Rightarrow> exn option"
  paasta_log :: "string \<Rightarrow> string \<Rightarrow> string \<Rightarrow> string \<Rightarrow> string \<Rightarrow> string \<Rightarrow> exn option"
  yelp_meteorite :: "metrics option"

text \<open>\<open>"%d" % n\<close> for an integer.\<close>

function str_nat :: "nat \<Rightarrow> string" where
  "str_nat n =
     (if n < 10 then [char_of (48 + n)] else str_nat (n div 10) @ [char_of (48 + n mod 10)])"
  by pat_completeness auto
termination
  by (relation "measure id") auto

declare str_nat.simps [simp del]

definition str_int :: "int \<Rightarrow> string" where
  "str_int i = (if i < 0 then CHR ''-'' # str_nat (nat (- i)) else str_nat (nat i))"

text \<open>
  A step of the program gives the effects it had and how it ended: \<open>None\<close> when it
  returned, \<open>Some e\<close> when the exception \<open>e\<close> left it.
\<close>

type_synonym run = "effect list \<times> exn option"

definition clog_line :: "log_line \<Rightarrow> string" where
  \<open>clog_line ll =
     ''{"timestamp": '' @ str_int (timestamp ll)
     @ '', "hostname": "'' @ hostname ll
     @ ''", "container_id": "'' @ container_id ll
     @ ''", "cluster": "'' @ cluster ll
     @ ''", "service": "'' @ service ll
     @ ''", "instance": "'' @ instance_name ll
     @ ''", "process_name": "'' @ process_name ll
     @ ''", "mesos_container_id": "'' @ mesos_container_id ll
     @ ''", "mem_limit": "'' @ mem_limit ll @ ''"}''\<close>

definition log_to_clog :: "world \<Rightarrow> log_line \<Rightarrow> run" where
  "log_to_clog w ll =
     ([Clog_log_line ''tmp_paasta_oom_events'' (clog_line ll)],
      clog_log_line w ''tmp_paasta_oom_events'' (clog_line ll))"

definition paasta_line :: "log_line \<Rightarrow> string" where
  "paasta_line ll =
     ''oom-killer killed ''
     @ (if process_name ll \<noteq> [] then ''a '' @ process_name ll @ '' process''
        else ''a process'')
     @ '' on '' @ hostname ll
     @ '' (container_id: '' @ container_id ll @ '').''"

definition log_to_paasta :: "world \<Rightarrow> log_line \<Rightarrow> run" where
  "log_to_paasta w ll =
     ([Paasta_log (service ll) (instance_name ll) ''oom'' (cluster ll) (default_loglevel w)
         (paasta_line ll)],
      paasta_log w (service ll) (instance_name ll) ''oom'' (cluster ll) (default_loglevel w)
        (paasta_line ll))"

definition send_sfx_event :: "world \<Rightarrow> string \<Rightarrow> string \<Rightarrow> string \<Rightarrow> run" where
  "send_sfx_event w svc inst clu =
     (case yelp_meteorite w of
        None \<Rightarrow> ([], None)
      | Some ym \<Rightarrow>
          (case get_pool ym svc inst clu of
             Inl e \<Rightarrow> ([], Some e)
           | Inr pool \<Rightarrow>
               let dims = [(''paasta_cluster'', clu), (''paasta_instance'', inst),
                           (''paasta_service'', svc), (''paasta_pool'', pool)]
               in (case emit_event ym ''paasta.service.oom_events'' dims of
                     Some e \<Rightarrow> ([Emit_event ''paasta.service.oom_events'' dims], Some e)
                   | None \<Rightarrow>
                       ([Emit_event ''paasta.service.oom_events'' dims,
                         Counter_count ''paasta.service.oom_count'' dims],
                        counter_count ym ''paasta.service.oom_count'' dims))))"

section \<open>The main loop\<close>

text \<open>
  Lines 271 to 285: the lookup of the container. \<open>Inr None\<close> is the \<open>continue\<close> of an
  \<open>except\<close> clause, \<open>Inr (Some j)\<close> the inspect payload, \<open>Inl e\<close> an exception that no
  clause catches.
\<close>

definition lookup :: "world \<Rightarrow> string \<Rightarrow> effect list \<times> (exn + json option)" where
  "lookup w cid =
     (if args_containerd w then
        (case get_containerd_container w cid of
           Inl e \<Rightarrow>
             if e = RpcError
             then ([Print ''An error occurred while getting the container:''], Inr None)
             else ([], Inl e)
         | Inr spec_value \<Rightarrow>
             (case decode_utf8 w spec_value of
                Inl e \<Rightarrow> ([], Inl e)
              | Inr container_spec_raw \<Rightarrow>
                  (case json_loads w container_spec_raw of
                     Inl e \<Rightarrow> ([], Inl e)
                   | Inr container_inspect \<Rightarrow> ([], Inr (Some container_inspect)))))
      else
        (case inspect_container w cid of
           Inl e \<Rightarrow> if e = APIError then ([], Inr None) else ([], Inl e)
         | Inr container_inspect \<Rightarrow> ([], Inr (Some container_inspect))))"

text \<open>Lines 302 to 304: the three sinks, one after the other.\<close>

definition dispatch :: "world \<Rightarrow> log_line \<Rightarrow> run" where
  "dispatch w ll =
     (case log_to_clog w ll of
        (fx1, Some e) \<Rightarrow> (fx1, Some e)
      | (fx1, None) \<Rightarrow>
          (case log_to_paasta w ll of
             (fx2, Some e) \<Rightarrow> (fx1 @ fx2, Some e)
           | (fx2, None) \<Rightarrow>
               (case send_sfx_event w (service ll) (instance_name ll) (get_cluster w) of
                  (fx3, r) \<Rightarrow> (fx1 @ fx2 @ fx3, r))))"

text \<open>The body of the \<open>for\<close> loop of \<open>main\<close>, for one occurrence.\<close>

definition handle_occurrence :: "world \<Rightarrow> occurrence \<Rightarrow> run" where
  "handle_occurrence w occ =
     (case occ of (ts, host, cid, pname) \<Rightarrow>
        (case lookup w cid of
           (fx, Inl e) \<Rightarrow> (fx, Some e)
         | (fx, Inr None) \<Rightarrow> (fx, None)
         | (fx, Inr (Some container_inspect)) \<Rightarrow>
             (case get_container_env_as_dict (args_containerd w) container_inspect of
                Inl e \<Rightarrow> (fx, Some e)
              | Inr env_vars \<Rightarrow>
                  (case dispatch w (make_log_line (get_cluster w) occ env_vars) of
                     (fx', r) \<Rightarrow> (fx @ fx', r)))))"

text \<open>
  The \<open>for\<close> loop over the occurrences of the scanner: an exception that leaves the body
  leaves the loop, and \<open>main\<close> with it.
\<close>

fun main_loop :: "world \<Rightarrow> occurrence list \<Rightarrow> run" where
  "main_loop w [] = ([], None)"
| "main_loop w (occ # occs) =
     (case handle_occurrence w occ of
        (fx, Some e) \<Rightarrow> (fx, Some e)
      | (fx, None) \<Rightarrow> (case main_loop w occs of (fx', r) \<Rightarrow> (fx @ fx', r)))"

text \<open>
  \<open>main\<close>: without \<open>clog\<close> the program prints a message and leaves with status 1. The
  calls that follow (\<open>parse_args\<close>, \<open>clog.config.configure\<close>, \<open>load_system_paasta_config\<close>,
  \<open>get_docker_client\<close>) are taken to return, \<open>args_containerd\<close> and \<open>get_cluster\<close> being
  what they give. The generator is consumed one occurrence at a time: an exception of
  the body of the loop ends \<open>main\<close> before the scanner reads on, and an exception of the
  scanner ends \<open>main\<close> after the occurrences yielded before it were handled.
\<close>

definition main :: "world \<Rightarrow> string list \<Rightarrow> run" where
  "main w stdin =
     (if \<not> clog_imported w
      then ([Print ''CLog logger unavailable, exiting.''], Some (SystemExit 1))
      else
        (case capture_oom_events_from_stdin stdin of
           (occs, ending) \<Rightarrow>
             (case main_loop w occs of
                (fx, Some e) \<Rightarrow> (fx, Some e)
              | (fx, None) \<Rightarrow> (fx, ending))))"

section \<open>Sample collaborators\<close>

text \<open>
  A world in which every collaborator returns: both backends answer every lookup with a
  payload that declares \<open>PAASTA_SERVICE=web\<close> and \<open>PAASTA_INSTANCE=main\<close>, the sinks accept
  every call and there is no metrics library. The flag chooses the backend.
\<close>

definition sample_world :: "bool \<Rightarrow> world" where
  "sample_world cri =
     \<lparr> clog_imported = True,
       args_containerd = cri,
       get_cluster = ''norcal'',
       default_loglevel = ''event'',
       get_containerd_container = (\<lambda>cid. Inr ''spec''),
       decode_utf8 = (\<lambda>b. Inr b),
       json_loads = (\<lambda>s. Inr (JObj [(''process'',
          JObj [(''env'', JArr [JStr ''PAASTA_SERVICE=web'', JStr ''PAASTA_INSTANCE=main''])])])),
       inspect_container = (\<lambda>cid. Inr (JObj [(''Config'',
          JObj [(''Env'', JArr [JStr ''PAASTA_SERVICE=web'', JStr ''PAASTA_INSTANCE=main''])])])),
       clog_log_line = (\<lambda>stream line. None),
       paasta_log = (\<lambda>svc inst component clu level line. None),
       yelp_meteorite = None \<rparr>"

text \<open>
  The same world, but the lookup of the container \<open>bad\<close> raises \<open>e\<close> on both backends.
\<close>

definition lookup_fails_world :: "bool \<Rightarrow> string \<Rightarrow> exn \<Rightarrow> world" where
  "lookup_fails_world cri bad e =
     (sample_world cri)
       \<lparr> get_containerd_container := (\<lambda>cid. if cid = bad then Inl e else Inr ''spec''),
         inspect_container := (\<lambda>cid. if cid = bad then Inl e else
            Inr (JObj [(''Config'', JObj [(''Env'', JArr [JStr ''PAASTA_SERVICE=web''])])])) \<rparr>"

text \<open>
  A containerd world whose lookups all return, the payload standing for the container's
  id; the payload of container \<open>aaaaaaaaaaaa\<close> is not UTF-8 and that of container
  \<open>bbbbbbbbbbbb\<close> is not JSON.
\<close>

definition garbled_world :: world where
  "garbled_world =
     (sample_world True)
       \<lparr> get_containerd_container := (\<lambda>cid. Inr cid),
         decode_utf8 := (\<lambda>b. if b = ''aaaaaaaaaaaa'' then Inl UnicodeDecodeError else Inr b),
         json_loads := (\<lambda>s. if s = ''bbbbbbbbbbbb'' then Inl JSONDecodeError else
            Inr (JObj [(''process'', JObj [(''env'', JArr [JStr ''PAASTA_SERVICE=web''])])])) \<rparr>"

text \<open>Worlds in which the structured-event sink, or the operator log sink, raises \<open>e\<close>.\<close>

definition clog_fails_world :: "exn \<Rightarrow> world" where
  "clog_fails_world e = (sample_world False) \<lparr> clog_log_line := (\<lambda>stream line. Some e) \<rparr>"

definition paasta_fails_world :: "exn \<Rightarrow> world" where
  "paasta_fails_world e =
     (sample_world False) \<lparr> paasta_log := (\<lambda>svc inst component clu level line. Some e) \<rparr>"

section \<open>What a pattern matches\<close>

text \<open>
  \<open>matches r pos pre s' c c'\<close>: at position \<open>pos\<close>, the pattern \<open>r\<close> can read the text \<open>pre\<close>,
  with \<open>s'\<close> the text that follows, and turn the captured groups \<open>c\<close> into \<open>c'\<close>. This is the
  set of all the ways to match, without their order; the matcher \<open>m\<close> finds one of
  them if there is one (lemmas \<open>m_sound\<close> and \<open>m_complete\<close>).
\<close>

fun matches :: "regex \<Rightarrow> nat \<Rightarrow> string \<Rightarrow> string \<Rightarrow> caps \<Rightarrow> caps \<Rightarrow> bool"
  and matches_seq :: "regex list \<Rightarrow> nat \<Rightarrow> string \<Rightarrow> string \<Rightarrow> caps \<Rightarrow> caps \<Rightarrow> bool" where
  "matches Bol pos pre s' c c' = (pos = 0 \<and> pre = [] \<and> c' = c)"
| "matches Eol pos pre s' c c' = ((s' = [] \<or> s' = [CHR 0x0A]) \<and> pre = [] \<and> c' = c)"
| "matches (Chr cl) pos pre s' c c' = (\<exists>x. pre = [x] \<and> cc_mem cl x \<and> c' = c)"
| "matches (Str lit) pos pre s' c c' = (pre = lit \<and> c' = c)"
| "matches (Rep cl lo hi) pos pre s' c c' =
     ((\<forall>x\<in>set pre. cc_mem cl x) \<and> lo \<le> length pre
      \<and> (case hi of None \<Rightarrow> True | Some h \<Rightarrow> length pre \<le> h) \<and> c' = c)"
| "matches (Opt r) pos pre s' c c' = (matches r pos pre s' c c' \<or> (pre = [] \<and> c' = c))"
| "matches (Grp n r) pos pre s' c c' = (\<exists>c1. matches r pos pre s' c c1 \<and> c' = (n, pre) # c1)"
| "matches (Cat rs) pos pre s' c c' = matches_seq rs pos pre s' c c'"
| "matches_seq [] pos pre s' c c' = (pre = [] \<and> c' = c)"
| "matches_seq (r # rs) pos pre s' c c' =
     (\<exists>p1 p2 c1. pre = p1 @ p2 \<and> matches r pos p1 (p2 @ s') c c1
        \<and> matches_seq rs (pos + length p1) p2 s' c1 c')"

section \<open>Notions used to state the properties\<close>

text \<open>
  The value of the scanner's variable \<open>process_name\<close> after the lines \<open>lines\<close>, none of
  them empty, when it was \<open>slot\<close> before them: the body of the loop of \<open>scan\<close>
  without its \<open>yield\<close>.
\<close>

fun pending :: "string \<Rightarrow> string list \<Rightarrow> string" where
  "pending slot [] = slot"
| "pending slot (syslog # rest) =
     (let slot =
            (case search process_name_regex syslog of
               Some r \<Rightarrow> group r 1
             | None \<Rightarrow> slot)
      in case first_match event_detail_regexes syslog of
           Some r \<Rightarrow> pending [] rest
         | None \<Rightarrow> pending slot rest)"

text \<open>
  A line that \<open>int\<close> does not refuse: no kill recognizer matches it, or the timestamp that
  the first matching recognizer captures has at most \<open>int_max_str_digits\<close> digits.
\<close>

definition timestamp_fits :: "string \<Rightarrow> bool" where
  "timestamp_fits line =
     (case first_match event_detail_regexes line of
        None \<Rightarrow> True
      | Some r \<Rightarrow> length (group r 1) \<le> int_max_str_digits)"

text \<open>
  The whitespace-separated fields of a line, as Python's \<open>line.split()\<close> gives them:
  \<open>split_acc cur s\<close> reads \<open>s\<close> with \<open>cur\<close> the field begun so far.
\<close>

fun split_acc :: "string \<Rightarrow> string \<Rightarrow> string list" where
  "split_acc cur [] = (if cur = [] then [] else [cur])"
| "split_acc cur (c # cs) =
     (if is_space c then (if cur = [] then split_acc [] cs else cur # split_acc [] cs)
      else split_acc (cur @ [c]) cs)"

definition fields :: "string \<Rightarrow> string list" where
  "fields line = split_acc [] line"

text \<open>The number of places of the text \<open>s\<close> where the text \<open>lit\<close> begins.\<close>

fun occurrences :: "string \<Rightarrow> string \<Rightarrow> nat" where
  "occurrences lit [] = 0"
| "occurrences lit (x # xs) =
     (if str_prefix lit (x # xs) \<noteq> None then 1 else 0) + occurrences lit xs"

section \<open>Sample lines\<close>

definition line_invoked :: string where
  "line_invoked = ''1 hostA kernel: [1] java invoked oom-killer: gfp''"

definition line_docker_kill :: string where
  "line_docker_kill = ''2 hostB kernel: Task in /docker/abcdef012345abcdef killed as a result''"

definition line_other :: string where
  "line_other = ''3 hostB kernel: usb 1-1: new device''"

definition line_both :: string where
  "line_both = ''1 h a] p invoked oom-killer: Task in /docker/0123456789abc killed as a''"

definition line_two_layouts :: string where
  "line_two_layouts =
     ''1 h oom-kill:task_memcg=/kubepods/podx/cccccccccccc, Task in /kubepods/pody/bbbbbbbbbbbb killed as a''"

definition line_systemd_12 :: string where
  "line_systemd_12 =
     ''5 dev37 kernel: oom-kill:constraint=CONSTRAINT_MEMCG,task_memcg=/kubepods.slice/pod1.slice/docker-0e7a4ea8ba3c.scope,task=apache2,pid=1''"

definition line_systemd_64 :: string where
  "line_systemd_64 =
     ''1720128512 dev208-uswest1adevc kernel: [12345.678901] oom-kill:constraint=CONSTRAINT_MEMCG,nodemask=(null),cpuset=docker-0e7a4ea8ba3c1f2d3c4b5a69788796a5b4c3d2e1f00e7a4ea8ba3c1f2d3c4b5a.scope,mems_allowed=0-1,oom_memcg=/kubepods.slice/kubepods-burstable.slice/kubepods-burstable-pod0d0f3e5a.slice,task_memcg=/kubepods.slice/kubepods-burstable.slice/kubepods-burstable-pod0d0f3e5a.slice/docker-0e7a4ea8ba3c1f2d3c4b5a69788796a5b4c3d2e1f00e7a4ea8ba3c1f2d3c4b5a.scope,task=apache2,pid=12345,uid=33''
     @ [CHR 0x0A]"

definition line_dotted_host :: string where
  "line_dotted_host =
     ''2 host-b.example.com kernel: Task in /docker/abcdef012345abcdef killed as a result''"

section \<open>The matcher finds a match exactly when there is one\<close>

lemma str_prefix_Some: "str_prefix lit s = Some s' \<Longrightarrow> s = lit @ s'"
  by (induction lit s rule: str_prefix.induct) (auto split: if_splits)

lemma str_prefix_append: "str_prefix lit (lit @ s') = Some s'"
  by (induction lit) auto

lemma rep_sound:
  "rep c lo hi pos s caps k = Some res \<Longrightarrow>
   \<exists>pre s'. s = pre @ s' \<and> (\<forall>x\<in>set pre. cc_mem c x) \<and> lo \<le> length pre
     \<and> (case hi of None \<Rightarrow> True | Some h \<Rightarrow> length pre \<le> h)
     \<and> k (pos + length pre) s' caps = Some res"
proof (induction s arbitrary: lo hi pos)
  case Nil
  then show ?case by (auto split: if_splits option.splits)
next
  case (Cons x xs)
  show ?case
  proof (cases "hi \<noteq> Some 0 \<and> cc_mem c x
      \<and> rep c (lo - 1) (map_option (\<lambda>h. h - 1) hi) (Suc pos) xs caps k \<noteq> None")
    case True
    then have r: "rep c (lo - 1) (map_option (\<lambda>h. h - 1) hi) (Suc pos) xs caps k = Some res"
      using Cons.prems by auto
    from Cons.IH [OF r] obtain pre s' where p: "xs = pre @ s'" "\<forall>x\<in>set pre. cc_mem c x"
      "lo - 1 \<le> length pre"
      "(case map_option (\<lambda>h. h - 1) hi of None \<Rightarrow> True | Some h \<Rightarrow> length pre \<le> h)"
      "k (Suc pos + length pre) s' caps = Some res"
      by blast
    have "x # xs = (x # pre) @ s'" using p by simp
    moreover have "\<forall>y\<in>set (x # pre). cc_mem c y" using p True by simp
    moreover have "lo \<le> length (x # pre)" using p by simp
    moreover have "(case hi of None \<Rightarrow> True | Some h \<Rightarrow> length (x # pre) \<le> h)"
      using p True by (cases hi) auto
    moreover have "k (pos + length (x # pre)) s' caps = Some res" using p by simp
    ultimately show ?thesis by blast
  next
    case False
    then have "lo = 0 \<and> k pos (x # xs) caps = Some res"
      using Cons.prems by (auto split: if_splits option.splits)
    then have "x # xs = [] @ (x # xs) \<and> (\<forall>y\<in>set []. cc_mem c y) \<and> lo \<le> length ([]::string)
       \<and> (case hi of None \<Rightarrow> True | Some h \<Rightarrow> length ([]::string) \<le> h)
       \<and> k (pos + length ([]::string)) (x # xs) caps = Some res"
      by (auto split: option.splits)
    then show ?thesis by blast
  qed
qed

lemma rep_complete:
  "(\<forall>x\<in>set pre. cc_mem c x) \<Longrightarrow> lo \<le> length pre \<Longrightarrow>
   (case hi of None \<Rightarrow> True | Some h \<Rightarrow> length pre \<le> h) \<Longrightarrow>
   k (pos + length pre) s' caps \<noteq> None \<Longrightarrow> rep c lo hi pos (pre @ s') caps k \<noteq> None"
proof (induction pre arbitrary: lo hi pos)
  case Nil
  then show ?case by (cases s') (auto split: option.splits)
next
  case (Cons x pre)
  have "rep c (lo - 1) (map_option (\<lambda>h. h - 1) hi) (Suc pos) (pre @ s') caps k \<noteq> None"
    using Cons.prems by (intro Cons.IH) (auto split: option.splits)
  moreover have "hi \<noteq> Some 0 \<and> cc_mem c x" using Cons.prems by (auto split: option.splits)
  ultimately show ?case by auto
qed

lemma m_sound:
  "m r pos s caps k = Some res \<Longrightarrow>
     \<exists>pre s' caps'. s = pre @ s' \<and> matches r pos pre s' caps caps'
        \<and> k (pos + length pre) s' caps' = Some res"
  "ms rs pos s caps k = Some res \<Longrightarrow>
     \<exists>pre s' caps'. s = pre @ s' \<and> matches_seq rs pos pre s' caps caps'
        \<and> k (pos + length pre) s' caps' = Some res"
proof (induction r pos s caps k and rs pos s caps k arbitrary: res and res rule: m_ms.induct)
  case (1 pos s caps k)
  then show ?case by (auto split: if_splits)
next
  case (2 pos s caps k)
  then show ?case by (auto split: if_splits)
next
  case (3 c pos s caps k)
  then obtain x xs where "s = x # xs" "cc_mem c x" "k (Suc pos) xs caps = Some res"
    by (auto split: list.splits if_splits)
  then have "s = [x] @ xs \<and> matches (Chr c) pos [x] xs caps caps
     \<and> k (pos + length [x]) xs caps = Some res" by simp
  then show ?case by blast
next
  case (4 lit pos s caps k)
  then obtain s' where "s = lit @ s'" "k (pos + length lit) s' caps = Some res"
    by (auto split: option.splits dest: str_prefix_Some)
  then have "s = lit @ s' \<and> matches (Str lit) pos lit s' caps caps
     \<and> k (pos + length lit) s' caps = Some res" by simp
  then show ?case by blast
next
  case (5 c lo hi pos s caps k)
  then show ?case using rep_sound [of c lo hi pos s caps k res] by auto
next
  case (6 r pos s caps k)
  show ?case
  proof (cases "m r pos s caps k")
    case None
    then have "k pos s caps = Some res" using 6 by simp
    then have "s = [] @ s \<and> matches (Opt r) pos [] s caps caps
       \<and> k (pos + length ([]::string)) s caps = Some res" by simp
    then show ?thesis by blast
  next
    case (Some a)
    then have "m r pos s caps k = Some res" using 6 by simp
    from "6.IH" [OF this] show ?thesis by auto
  qed
next
  case (7 n r pos s caps k)
  from "7.prems" have "m r pos s caps (\<lambda>pos' s' caps'. k pos' s' ((n, take (pos' - pos) s) # caps'))
      = Some res" by simp
  from "7.IH" [OF this] obtain pre s' c1 where
    p: "s = pre @ s'" "matches r pos pre s' caps c1"
       "k (pos + length pre) s' ((n, take (pos + length pre - pos) s) # c1) = Some res"
    by blast
  have "take (pos + length pre - pos) s = pre" using p by simp
  then have "matches (Grp n r) pos pre s' caps ((n, pre) # c1)
      \<and> k (pos + length pre) s' ((n, pre) # c1) = Some res" using p by simp
  then show ?case using p by blast
next
  case (8 rs pos s caps k)
  then show ?case by simp
next
  case (9 pos s caps k)
  then show ?case by simp
next
  case (10 r rs pos s caps k)
  from "10.prems" have "m r pos s caps (\<lambda>pos' s' caps'. ms rs pos' s' caps' k) = Some res"
    by simp
  from "10.IH"(2) [OF this] obtain p1 s1 c1 where
    a: "s = p1 @ s1" "matches r pos p1 s1 caps c1" "ms rs (pos + length p1) s1 c1 k = Some res"
    by blast
  from "10.IH"(1) [OF a(3)] obtain p2 s2 c2 where
    b: "s1 = p2 @ s2" "matches_seq rs (pos + length p1) p2 s2 c1 c2"
       "k (pos + length p1 + length p2) s2 c2 = Some res"
    by blast
  have "s = (p1 @ p2) @ s2" using a b by simp
  moreover have "matches_seq (r # rs) pos (p1 @ p2) s2 caps c2" using a b by auto
  moreover have "k (pos + length (p1 @ p2)) s2 c2 = Some res" using b by (simp add: add.assoc)
  ultimately show ?case by blast
qed

lemma m_complete:
  "matches r pos pre s' caps caps' \<Longrightarrow> s = pre @ s' \<Longrightarrow> k (pos + length pre) s' caps' \<noteq> None
     \<Longrightarrow> m r pos s caps k \<noteq> None"
  "matches_seq rs pos pre s' caps caps' \<Longrightarrow> s = pre @ s' \<Longrightarrow>
     k (pos + length pre) s' caps' \<noteq> None \<Longrightarrow> ms rs pos s caps k \<noteq> None"
proof (induction r pos s caps k and rs pos s caps k arbitrary: pre s' caps' and pre s' caps'
    rule: m_ms.induct)
  case (1 pos s caps k)
  then show ?case by auto
next
  case (2 pos s caps k)
  then show ?case by auto
next
  case (3 c pos s caps k)
  then show ?case by auto
next
  case (4 lit pos s caps k)
  then show ?case by (auto simp: str_prefix_append)
next
  case (5 c lo hi pos s caps k)
  then show ?case using rep_complete [of pre c lo hi k pos s' caps] by auto
next
  case (6 r pos s caps k)
  show ?case
  proof (cases "matches r pos pre s' caps caps'")
    case True
    from "6.IH" [OF True "6.prems"(2,3)] show ?thesis by auto
  next
    case False
    then have "pre = [] \<and> caps' = caps" using "6.prems" by simp
    then have "k pos s caps \<noteq> None" using "6.prems" by simp
    then show ?thesis by (auto split: option.splits)
  qed
next
  case (7 n r pos s caps k)
  from "7.prems" obtain c1 where c: "matches r pos pre s' caps c1" "caps' = (n, pre) # c1"
    by auto
  have "take (pos + length pre - pos) s = pre" using "7.prems" by simp
  then have "(\<lambda>pos' s' caps'. k pos' s' ((n, take (pos' - pos) s) # caps'))
      (pos + length pre) s' c1 \<noteq> None"
    using "7.prems" c by simp
  from "7.IH" [OF c(1) "7.prems"(2) this] show ?case by simp
next
  case (8 rs pos s caps k)
  then show ?case by simp
next
  case (9 pos s caps k)
  then show ?case by simp
next
  case (10 r rs pos s caps k)
  from "10.prems" obtain p1 p2 c1 where
    a: "pre = p1 @ p2" "matches r pos p1 (p2 @ s') caps c1"
       "matches_seq rs (pos + length p1) p2 s' c1 caps'"
    by auto
  have "k (pos + length p1 + length p2) s' caps' \<noteq> None"
    using "10.prems" a by (simp add: add.assoc)
  from "10.IH"(1) [OF a(3) refl this]
  have "(\<lambda>pos' s' caps'. ms rs pos' s' caps' k) (pos + length p1) (p2 @ s') c1 \<noteq> None"
    by simp
  from "10.IH"(2) [OF a(2) _ this] show ?case using a "10.prems" by simp
qed

lemma search_from_anchored: "search_from (Cat (Bol # rs)) (Suc p) s = None"
  by (induction s arbitrary: p) auto

lemma search_anchored:
  "search (Cat (Bol # rs)) line = ms rs 0 line [] (\<lambda>_ _ caps. Some caps)"
  by (cases line) (auto simp: search_def search_from_anchored split: option.splits)

lemma search_sound:
  "search (Cat (Bol # rs)) line = Some c \<Longrightarrow>
     \<exists>pre s'. line = pre @ s' \<and> matches_seq rs 0 pre s' [] c"
  using m_sound(2) [of rs 0 line "[]" "\<lambda>_ _ caps. Some caps" c]
  by (auto simp: search_anchored)

lemma search_complete:
  "matches_seq rs 0 pre s' [] c \<Longrightarrow> search (Cat (Bol # rs)) (pre @ s') \<noteq> None"
  using m_complete(2) [of rs 0 pre s' "[]" c "pre @ s'" "\<lambda>_ _ caps. Some caps"]
  by (simp add: search_anchored)

section \<open>Characters, runs and occurrences of a text\<close>

lemma space_not_digit: "is_space w \<Longrightarrow> \<not> is_digit w"
  by (auto simp: is_space_def is_digit_def Let_def)

lemma space_not_host: "is_space w \<Longrightarrow> \<not> is_host w"
  by (auto simp: is_space_def is_host_def is_digit_def is_alpha_def Let_def)

lemma word_not_comma: "is_word x \<Longrightarrow> x \<noteq> CHR '',''"
  by (auto simp: is_word_def Let_def)

lemma dash_not_word: "\<not> is_word CHR ''-''"
  by (simp add: is_word_def)

lemma blank_is_space: "is_space CHR '' ''"
  by (simp add: is_space_def)

lemma run_unique:
  "xs @ a # r = ys @ b # r' \<Longrightarrow> \<forall>x\<in>set xs. P x \<Longrightarrow> \<not> P a \<Longrightarrow> \<forall>x\<in>set ys. P x \<Longrightarrow> \<not> P b
     \<Longrightarrow> xs = ys \<and> a = b \<and> r = r'"
proof (induction xs arbitrary: ys)
  case Nil
  then show ?case by (cases ys) auto
next
  case (Cons x xs)
  then show ?case by (cases ys) auto
qed

lemma occurrences_append_ge: "occurrences lit W \<le> occurrences lit (U @ W)"
  by (induction U) (auto intro: le_SucI)

lemma occurrences_here: "lit \<noteq> [] \<Longrightarrow> 1 \<le> occurrences lit (lit @ V)"
  by (cases lit) (auto simp: str_prefix_append [of "_ # _", simplified])

lemma occurrences_inside: "lit \<noteq> [] \<Longrightarrow> 1 \<le> occurrences lit (U @ lit @ V)"
  using occurrences_here [of lit V] occurrences_append_ge [of lit "lit @ V" U] by simp

lemma occurrences_two:
  "lit \<noteq> [] \<Longrightarrow> lit @ V = y # Y @ lit @ V' \<Longrightarrow> 2 \<le> occurrences lit (lit @ V)"
proof -
  assume l: "lit \<noteq> []" and e: "lit @ V = y # Y @ lit @ V'"
  have "str_prefix lit (y # Y @ lit @ V') \<noteq> None"
    using str_prefix_append [of lit V] e by simp
  then have "occurrences lit (y # Y @ lit @ V') = 1 + occurrences lit (Y @ lit @ V')" by simp
  then show ?thesis using occurrences_inside [OF l, of Y V'] e by simp
qed

lemma occurrences_unique:
  "occurrences lit (U @ lit @ V) \<le> 1 \<Longrightarrow> lit \<noteq> [] \<Longrightarrow> U @ lit @ V = U' @ lit @ V' \<Longrightarrow> U = U'"
proof (induction U arbitrary: U')
  case Nil
  show ?case
  proof (cases U')
    case Nil
    then show ?thesis by simp
  next
    case (Cons y Y)
    then have "2 \<le> occurrences lit (lit @ V)"
      using occurrences_two [of lit V y Y V'] Nil.prems by simp
    then show ?thesis using Nil.prems by simp
  qed
next
  case (Cons u U)
  show ?case
  proof (cases U')
    case Nil
    then have e: "lit @ V' = u # U @ lit @ V" using Cons.prems by simp
    then have "2 \<le> occurrences lit (lit @ V')"
      using occurrences_two [of lit V' u U V] Cons.prems by simp
    then have "2 \<le> occurrences lit ((u # U) @ lit @ V)" using e by simp
    then show ?thesis using Cons.prems(1) by linarith
  next
    case c: (Cons y Y)
    have "occurrences lit (U @ lit @ V) \<le> occurrences lit ((u # U) @ lit @ V)" by simp
    then have "occurrences lit (U @ lit @ V) \<le> 1" using Cons.prems by linarith
    then have "U = Y" using Cons.IH [of Y] Cons.prems c by simp
    then show ?thesis using Cons.prems c by simp
  qed
qed



section \<open>The shape of the lines the kill patterns match\<close>

lemma matches_seq_Str:
  "Str lit \<in> set rs \<Longrightarrow> matches_seq rs pos pre s' c c' \<Longrightarrow> \<exists>U V. pre = U @ lit @ V"
proof (induction rs arbitrary: pos pre c)
  case Nil
  then show ?case by simp
next
  case (Cons r rs)
  from Cons.prems(2) obtain p1 p2 c1 where
    p: "pre = p1 @ p2" "matches r pos p1 (p2 @ s') c c1"
       "matches_seq rs (pos + length p1) p2 s' c1 c'"
    by auto
  show ?case
  proof (cases "r = Str lit")
    case True
    then have "pre = [] @ lit @ p2" using p by simp
    then show ?thesis by blast
  next
    case False
    then have "Str lit \<in> set rs" using Cons.prems by simp
    from Cons.IH [OF this p(3)] obtain U V where "p2 = U @ lit @ V" by blast
    then have "pre = (p1 @ U) @ lit @ V" using p by simp
    then show ?thesis by blast
  qed
qed

lemma search_has_literal:
  assumes "search (Cat (Bol # rs)) line = Some c" and "Str lit \<in> set rs"
  shows "\<exists>U V. line = U @ lit @ V"
proof -
  from search_sound [OF assms(1)] obtain pre s' where
    p: "line = pre @ s'" "matches_seq rs 0 pre s' [] c" by blast
  from matches_seq_Str [OF assms(2) p(2)] obtain U V where "pre = U @ lit @ V" by blast
  then have "line = U @ lit @ (V @ s')" using p by simp
  then show ?thesis by blast
qed

lemma earlier_layouts_need_their_marker:
  assumes "occurrences ''Task'' line = 0" and "occurrences ''task_memcg=/kubepods/'' line = 0"
  shows "search oom_regex_docker line = None"
    and "search oom_regex_kubernetes line = None"
    and "search oom_regex_kubernetes_structured line = None"
proof -
  show "search oom_regex_docker line = None"
  proof (rule ccontr)
    assume "search oom_regex_docker line \<noteq> None"
    then obtain c where h: "search oom_regex_docker line = Some c" by blast
    from search_has_literal [OF h [unfolded oom_regex_docker_def], of "''Task in /docker/''"]
    obtain U V where "line = U @ ''Task in /docker/'' @ V" by auto
    then have "line = U @ ''Task'' @ ('' in /docker/'' @ V)" by simp
    then have "1 \<le> occurrences ''Task'' line"
      using occurrences_inside [of "''Task''" U "'' in /docker/'' @ V"] by simp
    then show False using assms by simp
  qed
  show "search oom_regex_kubernetes line = None"
  proof (rule ccontr)
    assume "search oom_regex_kubernetes line \<noteq> None"
    then obtain c where h: "search oom_regex_kubernetes line = Some c" by blast
    from search_has_literal [OF h [unfolded oom_regex_kubernetes_def], of "''Task''"]
    obtain U V where "line = U @ ''Task'' @ V" by auto
    then have "1 \<le> occurrences ''Task'' line"
      using occurrences_inside [of "''Task''" U V] by simp
    then show False using assms by simp
  qed
  show "search oom_regex_kubernetes_structured line = None"
  proof (rule ccontr)
    assume "search oom_regex_kubernetes_structured line \<noteq> None"
    then obtain c where h: "search oom_regex_kubernetes_structured line = Some c" by blast
    from search_has_literal [OF h [unfolded oom_regex_kubernetes_structured_def], of "''task_memcg=/kubepods/''"]
    obtain U V where "line = U @ ''task_memcg=/kubepods/'' @ V" by auto
    then have "1 \<le> occurrences ''task_memcg=/kubepods/'' line"
      using occurrences_inside [of "''task_memcg=/kubepods/''" U V] by simp
    then show False using assms by simp
  qed
qed

lemma matches_seq_ConsI:
  "matches r pos p1 (p2 @ s') c c1 \<Longrightarrow> matches_seq rs (pos + length p1) p2 s' c1 c' \<Longrightarrow>
   matches_seq (r # rs) pos (p1 @ p2) s' c c'"
  by auto

lemma matches_GrpRepI:
  "\<forall>x\<in>set pre. cc_mem cl x \<Longrightarrow> lo \<le> length pre \<Longrightarrow>
   (case hi of None \<Rightarrow> True | Some h \<Rightarrow> length pre \<le> h) \<Longrightarrow>
   matches (Grp n (Rep cl lo hi)) pos pre s' c ((n, pre) # c)"
  by simp

lemma matches_RepI:
  "\<forall>x\<in>set pre. cc_mem cl x \<Longrightarrow> lo \<le> length pre \<Longrightarrow>
   (case hi of None \<Rightarrow> True | Some h \<Rightarrow> length pre \<le> h) \<Longrightarrow>
   matches (Rep cl lo hi) pos pre s' c c"
  by simp

lemma matches_StrI: "matches (Str lit) pos lit s' c c"
  by simp

lemma matches_ChrI: "cc_mem cl x \<Longrightarrow> matches (Chr cl) pos [x] s' c c"
  by simp

lemma matches_seq_tailI:
  "\<forall>x\<in>set rest. x \<noteq> CHR 0x0A \<Longrightarrow> s' = [] \<or> s' = [CHR 0x0A] \<Longrightarrow>
   matches_seq [Rep Dot 0 None, Eol] pos rest s' c c"
  by auto

lemma systemd_layout_matches:
  assumes "ts \<noteq> []" "\<forall>x\<in>set ts. is_digit x" "hst \<noteq> []" "\<forall>x\<in>set hst. is_host x"
    and "\<forall>x\<in>set (a @ b @ rest). x \<noteq> CHR 0x0A" "nl = [] \<or> nl = [CHR 0x0A]"
    and "path \<noteq> []" "\<forall>x\<in>set path. x \<noteq> CHR '',''"
    and "\<forall>x\<in>set cid. is_word x" "13 \<le> length cid"
  shows "search oom_regex_kubernetes_systemd_cgroup
           ((ts @ [CHR '' ''] @ hst @ [CHR '' ''] @ a @ ''oom-kill:'' @ b
             @ ''task_memcg=/kubepods.slice/'' @ path @ ''docker-'' @ take 12 cid @ drop 12 cid
             @ ''.scope,'' @ rest) @ nl) \<noteq> None"
proof -
  have t: "\<forall>x\<in>set (take 12 cid). cc_mem Word x" "\<forall>x\<in>set (drop 12 cid). cc_mem Word x"
    using assms by (auto dest: in_set_takeD in_set_dropD)
  have l: "length (take 12 cid) = 12" "1 \<le> length (drop 12 cid)" using assms by auto
  show ?thesis
    unfolding oom_regex_kubernetes_systemd_cgroup_def
    apply (rule search_complete [where c = "[(3, take 12 cid), (2, hst), (1, ts)]"])
    apply (rule matches_seq_ConsI, rule matches_GrpRepI)
    using assms apply (simp, simp add: Suc_le_eq, simp)
    apply (rule matches_seq_ConsI, rule matches_ChrI, simp add: blank_is_space)
    apply (rule matches_seq_ConsI, rule matches_GrpRepI)
    using assms apply (simp, simp add: Suc_le_eq, simp)
    apply (rule matches_seq_ConsI, rule matches_ChrI, simp add: blank_is_space)
    apply (rule matches_seq_ConsI, rule matches_RepI)
    using assms apply (simp, simp, simp)
    apply (rule matches_seq_ConsI, rule matches_StrI)
    apply (rule matches_seq_ConsI, rule matches_RepI)
    using assms apply (simp, simp, simp)
    apply (rule matches_seq_ConsI, rule matches_StrI)
    apply (rule matches_seq_ConsI, rule matches_RepI)
    using assms apply (simp, simp add: Suc_le_eq, simp)
    apply (rule matches_seq_ConsI, rule matches_StrI)
    apply (rule matches_seq_ConsI, rule matches_GrpRepI)
    using t l apply (blast, simp, simp)
    apply (rule matches_seq_ConsI, rule matches_RepI)
    using t l apply (blast, simp, simp)
    apply (rule matches_seq_ConsI, rule matches_StrI)
    apply (rule matches_seq_tailI)
    using assms apply (simp, simp)
    done
qed

lemma systemd_shape:
  assumes "search oom_regex_kubernetes_systemd_cgroup line = Some c"
  obtains ts w1 h w2 a b p cid w rest where
    "line = ts @ [w1] @ h @ [w2] @ a @ ''oom-kill:'' @ b @ ''task_memcg=/kubepods.slice/'' @ p
       @ ''docker-'' @ cid @ w @ ''.scope,'' @ rest"
    "ts \<noteq> []" "\<forall>x\<in>set ts. is_digit x" "is_space w1" "h \<noteq> []" "\<forall>x\<in>set h. is_host x"
    "is_space w2" "p \<noteq> []" "\<forall>x\<in>set p. x \<noteq> CHR '',''" "length cid = 12"
    "\<forall>x\<in>set cid. is_word x" "w \<noteq> []" "\<forall>x\<in>set w. is_word x"
    "c = [(3, cid), (2, h), (1, ts)]"
proof -
  from search_sound [of _ line c] assms obtain pre s' where
    "line = pre @ s'"
    "matches_seq [Grp 1 (Rep Digit 1 None), Chr Space, Grp 2 (Rep Host 1 None), Chr Space,
      Rep Dot 0 None, Str ''oom-kill:'', Rep Dot 0 None,
      Str ''task_memcg=/kubepods.slice/'', Rep NotComma 1 None, Str ''docker-'',
      Grp 3 (Rep Word 12 (Some 12)), Rep Word 1 None, Str ''.scope,'', Rep Dot 0 None, Eol]
      0 pre s' [] c"
    unfolding oom_regex_kubernetes_systemd_cgroup_def by blast
  then show ?thesis
    apply (clarsimp simp: Suc_le_eq)
    subgoal for ts w1 h w2 a b p cid w r
      by (rule that [of ts w1 h w2 a b p cid w "r @ s'"]) auto
    done
qed

lemma systemd_layout_captures:
  assumes line: "line = ts @ [CHR '' ''] @ hst @ [CHR '' ''] @ a @ ''oom-kill:'' @ b
             @ ''task_memcg=/kubepods.slice/'' @ path @ ''docker-'' @ cid
             @ ''.scope,'' @ rest @ nl"
    and ts: "ts \<noteq> []" "\<forall>x\<in>set ts. is_digit x"
    and hst: "hst \<noteq> []" "\<forall>x\<in>set hst. is_host x"
    and nonl: "\<forall>x\<in>set (a @ b @ rest). x \<noteq> CHR 0x0A" "nl = [] \<or> nl = [CHR 0x0A]"
    and path: "path \<noteq> []" "\<forall>x\<in>set path. x \<noteq> CHR '',''"
    and cid: "\<forall>x\<in>set cid. is_word x" "13 \<le> length cid"
    and once: "occurrences ''task_memcg=/kubepods.slice/'' line = 1"
  shows "search oom_regex_kubernetes_systemd_cgroup line
           = Some [(3, take 12 cid), (2, hst), (1, ts)]"
proof -
  have "line = (ts @ [CHR '' ''] @ hst @ [CHR '' ''] @ a @ ''oom-kill:'' @ b
             @ ''task_memcg=/kubepods.slice/'' @ path @ ''docker-'' @ take 12 cid @ drop 12 cid
             @ ''.scope,'' @ rest) @ nl"
    unfolding line by (simp del: append_take_drop_id add: append_take_drop_id [of 12 cid])
  then have "search oom_regex_kubernetes_systemd_cgroup line \<noteq> None"
    using systemd_layout_matches [OF ts hst nonl path cid] by simp
  then obtain c where c: "search oom_regex_kubernetes_systemd_cgroup line = Some c" by blast
  show ?thesis
  proof (rule systemd_shape [OF c])
  fix ts' w1 h' w2 a' b' p' cid' w' rest'
  assume s: "line = ts' @ [w1] @ h' @ [w2] @ a' @ ''oom-kill:'' @ b' @ ''task_memcg=/kubepods.slice/''
          @ p' @ ''docker-'' @ cid' @ w' @ ''.scope,'' @ rest'"
    and s_ts: "ts' \<noteq> []" "\<forall>x\<in>set ts'. is_digit x" and s_w1: "is_space w1"
    and s_h: "h' \<noteq> []" "\<forall>x\<in>set h'. is_host x" and s_w2: "is_space w2"
    and s_p: "p' \<noteq> []" "\<forall>x\<in>set p'. x \<noteq> CHR '',''"
    and s_cid: "length cid' = 12" "\<forall>x\<in>set cid'. is_word x"
    and s_w: "w' \<noteq> []" "\<forall>x\<in>set w'. is_word x"
    and s_c: "c = [(3, cid'), (2, h'), (1, ts')]"
  have e1: "ts' @ w1 # (h' @ [w2] @ a' @ ''oom-kill:'' @ b' @ ''task_memcg=/kubepods.slice/''
          @ p' @ ''docker-'' @ cid' @ w' @ ''.scope,'' @ rest')
      = ts @ CHR '' '' # (hst @ [CHR '' ''] @ a @ ''oom-kill:'' @ b
             @ ''task_memcg=/kubepods.slice/'' @ path @ ''docker-'' @ cid
             @ ''.scope,'' @ rest @ nl)"
    using s line by simp
  from run_unique [OF e1, of is_digit] have
    r1: "ts' = ts"
      "h' @ [w2] @ a' @ ''oom-kill:'' @ b' @ ''task_memcg=/kubepods.slice/''
          @ p' @ ''docker-'' @ cid' @ w' @ ''.scope,'' @ rest'
       = hst @ [CHR '' ''] @ a @ ''oom-kill:'' @ b
             @ ''task_memcg=/kubepods.slice/'' @ path @ ''docker-'' @ cid
             @ ''.scope,'' @ rest @ nl"
    using s_ts(2) s_w1 ts(2) space_not_digit blank_is_space by auto
  have e2: "h' @ w2 # (a' @ ''oom-kill:'' @ b' @ ''task_memcg=/kubepods.slice/''
          @ p' @ ''docker-'' @ cid' @ w' @ ''.scope,'' @ rest')
       = hst @ CHR '' '' # (a @ ''oom-kill:'' @ b
             @ ''task_memcg=/kubepods.slice/'' @ path @ ''docker-'' @ cid
             @ ''.scope,'' @ rest @ nl)"
    using r1(2) by simp
  from run_unique [OF e2, of is_host] have r2: "h' = hst"
    using s_h(2) s_w2 hst(2) space_not_host blank_is_space by auto
  have u: "(ts @ [CHR '' ''] @ hst @ [CHR '' ''] @ a @ ''oom-kill:'' @ b)
        @ ''task_memcg=/kubepods.slice/'' @ (path @ ''docker-'' @ cid @ ''.scope,'' @ rest @ nl)
      = (ts' @ [w1] @ h' @ [w2] @ a' @ ''oom-kill:'' @ b')
        @ ''task_memcg=/kubepods.slice/'' @ (p' @ ''docker-'' @ cid' @ w' @ ''.scope,'' @ rest')"
    using s line by simp
  have "occurrences ''task_memcg=/kubepods.slice/''
      ((ts @ [CHR '' ''] @ hst @ [CHR '' ''] @ a @ ''oom-kill:'' @ b)
        @ ''task_memcg=/kubepods.slice/'' @ (path @ ''docker-'' @ cid @ ''.scope,'' @ rest @ nl))
      \<le> 1"
    using once line by simp
  from occurrences_unique [OF this _ u] have
    "ts @ [CHR '' ''] @ hst @ [CHR '' ''] @ a @ ''oom-kill:'' @ b
       = ts' @ [w1] @ h' @ [w2] @ a' @ ''oom-kill:'' @ b'"
    by simp
  then have v: "path @ ''docker-'' @ cid @ ''.scope,'' @ rest @ nl
      = p' @ ''docker-'' @ cid' @ w' @ ''.scope,'' @ rest'"
    using u by simp
  have e3: "(p' @ ''docker-'' @ cid' @ w' @ ''.scope'') @ CHR '','' # rest'
      = (path @ ''docker-'' @ cid @ ''.scope'') @ CHR '','' # (rest @ nl)"
    using v by simp
  have "\<forall>x\<in>set (p' @ ''docker-'' @ cid' @ w' @ ''.scope''). x \<noteq> CHR '',''"
    using s_p(2) s_cid(2) s_w(2) word_not_comma by auto
  moreover have "\<forall>x\<in>set (path @ ''docker-'' @ cid @ ''.scope''). x \<noteq> CHR '',''"
    using path(2) cid(1) word_not_comma by auto
  ultimately have "p' @ ''docker-'' @ cid' @ w' @ ''.scope'' = path @ ''docker-'' @ cid @ ''.scope''"
    using run_unique [OF e3, of "\<lambda>x. x \<noteq> CHR '',''"] by simp
  then have "(p' @ ''docker-'' @ cid' @ w') @ ''.scope'' = (path @ ''docker-'' @ cid) @ ''.scope''"
    by simp
  then have "p' @ ''docker-'' @ cid' @ w' = path @ ''docker-'' @ cid"
    by (simp only: append_same_eq)
  then have "rev (p' @ ''docker-'' @ cid' @ w') = rev (path @ ''docker-'' @ cid)" by simp
  then have e4: "rev (cid' @ w') @ CHR ''-'' # (rev ''docker'' @ rev p')
      = rev cid @ CHR ''-'' # (rev ''docker'' @ rev path)"
    by simp
  have "\<forall>x\<in>set (rev (cid' @ w')). is_word x" using s_cid(2) s_w(2) by auto
  moreover have "\<forall>x\<in>set (rev cid). is_word x" using cid(1) by auto
  ultimately have "rev (cid' @ w') = rev cid"
    using run_unique [OF e4, of is_word] dash_not_word by simp
  then have "cid' @ w' = cid" by (simp only: rev_is_rev_conv)
  then have "take 12 cid = cid'" using s_cid(1) by auto
  then show ?thesis using c s_c r1(1) r2 by simp
  qed
qed

lemma kill_head:
  assumes "matches_seq (Grp 1 (Rep Digit 1 None) # Chr Space # Grp 2 (Rep Host 1 None)
      # Chr Space # tail) 0 pre s' [] c"
  obtains ts w1 h w2 rest where
    "pre = ts @ [w1] @ h @ [w2] @ rest"
    "ts \<noteq> []" "\<forall>x\<in>set ts. is_digit x" "is_space w1" "h \<noteq> []" "\<forall>x\<in>set h. is_host x"
    "is_space w2"
    "matches_seq tail (Suc (Suc (length ts + length h))) rest s' [(2, h), (1, ts)] c"
  using assms by (clarsimp simp: Suc_le_eq)

lemma docker_tail:
  "matches_seq [Rep Dot 0 None, Str ''Task in /docker/'', Grp 3 (Rep Word 12 (Some 12)),
      Rep Word 1 None, Str '' killed as a''] pos rest s' c0 c \<Longrightarrow> \<exists>cid. c = (3, cid) # c0"
  by auto

lemma kubernetes_tail:
  "matches_seq [Rep Dot 0 None, Str ''Task'', Chr Space, Str ''in'', Chr Space, Str ''/kubepods/'',
      Opt (Cat [Rep Alpha 1 None, Str ''/'']),
      Str ''pod'', Rep DashWord 1 None, Str ''/'',
      Grp 3 (Cat [Rep Word 12 (Some 12), Opt (Rep Word 52 (Some 52))]),
      Rep Word 0 None, Chr Space,
      Str ''killed'', Chr Space, Str ''as'', Chr Space, Rep (Lit CHR ''a'') 0 None]
      pos rest s' c0 c \<Longrightarrow> \<exists>cid. c = (3, cid) # c0"
  by auto

lemma structured_tail:
  "matches_seq [Rep Dot 0 None, Str ''oom-kill:'', Rep Dot 0 None, Str ''task_memcg=/kubepods/'',
      Opt (Cat [Rep Alpha 1 None, Str ''/'']),
      Str ''pod'', Rep DashWord 1 None, Str ''/'',
      Grp 3 (Cat [Rep Word 12 (Some 12), Opt (Rep Word 52 (Some 52))]),
      Rep Word 0 None, Str '','', Rep Dot 0 None, Eol]
      pos rest s' c0 c \<Longrightarrow> \<exists>cid. c = (3, cid) # c0"
  by auto

lemma systemd_tail:
  "matches_seq [Rep Dot 0 None, Str ''oom-kill:'', Rep Dot 0 None,
      Str ''task_memcg=/kubepods.slice/'', Rep NotComma 1 None, Str ''docker-'',
      Grp 3 (Rep Word 12 (Some 12)), Rep Word 1 None, Str ''.scope,'', Rep Dot 0 None, Eol]
      pos rest s' c0 c \<Longrightarrow> \<exists>cid. c = (3, cid) # c0"
  by auto

lemma containerd_tail:
  "matches_seq [Rep Dot 0 None, Str ''oom-kill:'', Rep Dot 0 None,
      Str ''task_memcg=/system.slice/'', Rep Dot 0 None, Str ''nerdctl-'',
      Grp 3 (Rep Word 64 (Some 64)), Rep Word 0 None, Str ''.scope,'', Rep Dot 0 None, Eol]
      pos rest s' c0 c \<Longrightarrow> \<exists>cid. c = (3, cid) # c0"
  by auto

lemma kill_shape:
  assumes "r \<in> set event_detail_regexes" and "search r line = Some c"
  obtains ts w1 h w2 rest cid where
    "line = ts @ [w1] @ h @ [w2] @ rest"
    "ts \<noteq> []" "\<forall>x\<in>set ts. is_digit x" "is_space w1" "h \<noteq> []" "\<forall>x\<in>set h. is_host x"
    "is_space w2" "c = [(3, cid), (2, h), (1, ts)]"
proof -
  consider "r = oom_regex_docker" | "r = oom_regex_kubernetes"
    | "r = oom_regex_kubernetes_structured" | "r = oom_regex_kubernetes_systemd_cgroup"
    | "r = oom_regex_kubernetes_containerd_systemd_cgroup"
    using assms(1) by (auto simp: event_detail_regexes_def)
  then have "\<exists>tail. r = Cat (Bol # Grp 1 (Rep Digit 1 None) # Chr Space # Grp 2 (Rep Host 1 None)
      # Chr Space # tail)
     \<and> (\<forall>pos rest s' c0 c. matches_seq tail pos rest s' c0 c \<longrightarrow> (\<exists>cid. c = (3, cid) # c0))"
  proof cases
    case 1
    show ?thesis unfolding 1 oom_regex_docker_def
      by (rule exI, rule conjI, rule refl) (intro allI impI, erule docker_tail)
  next
    case 2
    show ?thesis unfolding 2 oom_regex_kubernetes_def
      by (rule exI, rule conjI, rule refl) (intro allI impI, erule kubernetes_tail)
  next
    case 3
    show ?thesis unfolding 3 oom_regex_kubernetes_structured_def
      by (rule exI, rule conjI, rule refl) (intro allI impI, erule structured_tail)
  next
    case 4
    show ?thesis unfolding 4 oom_regex_kubernetes_systemd_cgroup_def
      by (rule exI, rule conjI, rule refl) (intro allI impI, erule systemd_tail)
  next
    case 5
    show ?thesis unfolding 5 oom_regex_kubernetes_containerd_systemd_cgroup_def
      by (rule exI, rule conjI, rule refl) (intro allI impI, erule containerd_tail)
  qed
  then obtain tail where
    r: "r = Cat (Bol # Grp 1 (Rep Digit 1 None) # Chr Space # Grp 2 (Rep Host 1 None)
      # Chr Space # tail)"
    and t: "\<And>pos rest s' c0 c. matches_seq tail pos rest s' c0 c \<Longrightarrow> \<exists>cid. c = (3, cid) # c0"
    by blast
  from search_sound [OF assms(2) [unfolded r]] obtain pre s' where
    p: "line = pre @ s'"
      "matches_seq (Grp 1 (Rep Digit 1 None) # Chr Space # Grp 2 (Rep Host 1 None)
      # Chr Space # tail) 0 pre s' [] c"
    by blast
  show ?thesis
  proof (rule kill_head [OF p(2)])
    fix ts w1 h w2 rest
    assume a: "pre = ts @ [w1] @ h @ [w2] @ rest"
      "ts \<noteq> []" "\<forall>x\<in>set ts. is_digit x" "is_space w1" "h \<noteq> []" "\<forall>x\<in>set h. is_host x"
      "is_space w2"
      "matches_seq tail (Suc (Suc (length ts + length h))) rest s' [(2, h), (1, ts)] c"
    from t [OF a(8)] obtain cid where "c = [(3, cid), (2, h), (1, ts)]" by blast
    moreover have "line = ts @ [w1] @ h @ [w2] @ (rest @ s')" using p(1) a(1) by simp
    ultimately show ?thesis using a that by blast
  qed
qed

lemma kill_groups_set:
  assumes "r \<in> set event_detail_regexes" and "search r line = Some c"
  shows "map_of c 1 \<noteq> None \<and> map_of c 2 \<noteq> None \<and> map_of c 3 \<noteq> None
    \<and> group c 1 \<noteq> [] \<and> (\<forall>x\<in>set (group c 1). is_digit x)"
  by (rule kill_shape [OF assms]) (simp add: group_def)

section \<open>The scanner's loop\<close>

lemma scan_kill:
  "k \<noteq> [] \<Longrightarrow> first_match event_detail_regexes k = Some r \<Longrightarrow>
   length (group r 1) \<le> int_max_str_digits \<Longrightarrow>
   scan pn (k # post) =
     ((digits_value (group r 1), group r 2, group r 3,
       (case search process_name_regex k of Some c \<Rightarrow> group c 1 | None \<Rightarrow> pn))
        # fst (scan [] post),
      snd (scan [] post))"
  by (auto simp: Let_def py_int_def split: option.splits prod.splits)

lemma scan_kill_refused:
  "k \<noteq> [] \<Longrightarrow> first_match event_detail_regexes k = Some r \<Longrightarrow>
   int_max_str_digits < length (group r 1) \<Longrightarrow> scan pn (k # post) = ([], Some ValueError)"
  by (auto simp: Let_def py_int_def split: option.splits)

lemma scan_no_kill:
  "k \<noteq> [] \<Longrightarrow> first_match event_detail_regexes k = None \<Longrightarrow>
   scan pn (k # post) =
     scan (case search process_name_regex k of Some c \<Rightarrow> group c 1 | None \<Rightarrow> pn) post"
  by (auto simp: Let_def split: option.splits)

lemma scan_end: "scan pn [] = ([], None)" "scan pn ([] # post) = ([], None)"
  by simp_all

declare scan.simps [simp del]

declare scan_end [simp]

lemma scan_append:
  "[] \<notin> set pre \<Longrightarrow>
   scan pn (pre @ post) =
     (case scan pn pre of
        (occs, Some e) \<Rightarrow> (occs, Some e)
      | (occs, None) \<Rightarrow>
          (occs @ fst (scan (pending pn pre) post), snd (scan (pending pn pre) post)))"
proof (induction pre arbitrary: pn)
  case Nil
  then show ?case by simp
next
  case (Cons l ls)
  then have l: "l \<noteq> []" and ls: "[] \<notin> set ls" by auto
  define pn' where "pn' = (case search process_name_regex l of Some c \<Rightarrow> group c 1 | None \<Rightarrow> pn)"
  show ?case
  proof (cases "first_match event_detail_regexes l")
    case None
    have p: "pending pn (l # ls) = pending pn' ls" using None by (simp add: pn'_def)
    have "scan pn ((l # ls) @ post) = scan pn' (ls @ post)"
      using scan_no_kill [OF l None, of pn "ls @ post"] by (simp add: pn'_def)
    moreover have "scan pn (l # ls) = scan pn' ls"
      using scan_no_kill [OF l None, of pn ls] by (simp add: pn'_def)
    ultimately show ?thesis unfolding p using Cons.IH [OF ls, of pn'] by simp
  next
    case (Some r)
    have p: "pending pn (l # ls) = pending [] ls" using Some by (simp add: Let_def)
    show ?thesis
    proof (cases "int_max_str_digits < length (group r 1)")
      case True
      show ?thesis
        using scan_kill_refused [OF l Some True, of pn ls]
          scan_kill_refused [OF l Some True, of pn "ls @ post"]
        by simp
    next
      case False
      then have f: "length (group r 1) \<le> int_max_str_digits" by simp
      obtain occs ending where o: "scan [] ls = (occs, ending)" by (cases "scan [] ls")
      have a: "scan pn (l # ls) = ((digits_value (group r 1), group r 2, group r 3, pn') # occs, ending)"
        using scan_kill [OF l Some f, of pn ls] o by (simp add: pn'_def)
      have b: "scan [] (ls @ post) =
          (case ending of
             Some e \<Rightarrow> (occs, Some e)
           | None \<Rightarrow> (occs @ fst (scan (pending [] ls) post), snd (scan (pending [] ls) post)))"
        using Cons.IH [OF ls, of "[]"] o by (simp split: option.splits)
      have "scan pn ((l # ls) @ post) =
          ((digits_value (group r 1), group r 2, group r 3, pn') # fst (scan [] (ls @ post)),
           snd (scan [] (ls @ post)))"
        using scan_kill [OF l Some f, of pn "ls @ post"] by (simp add: pn'_def)
      then show ?thesis unfolding p using a b by (simp split: option.splits)
    qed
  qed
qed

lemma scan_fits: "\<forall>l\<in>set ls. timestamp_fits l \<Longrightarrow> snd (scan pn ls) = None"
proof (induction ls arbitrary: pn)
  case Nil
  then show ?case by simp
next
  case (Cons l ls)
  then have ih: "snd (scan p ls) = None" for p by simp
  show ?case
  proof (cases "l = []")
    case True
    then show ?thesis by simp
  next
    case l: False
    show ?thesis
    proof (cases "first_match event_detail_regexes l")
      case None
      show ?thesis using scan_no_kill [OF l None, of pn ls] ih by simp
    next
      case (Some r)
      then have "length (group r 1) \<le> int_max_str_digits"
        using Cons.prems by (simp add: timestamp_fits_def)
      from scan_kill [OF l Some this, of pn ls] show ?thesis using ih [of "[]"] by simp
    qed
  qed
qed

lemma scan_append_fits:
  assumes "[] \<notin> set pre" and "\<forall>l\<in>set pre. timestamp_fits l"
  shows "scan pn (pre @ post) =
     (fst (scan pn pre) @ fst (scan (pending pn pre) post), snd (scan (pending pn pre) post))"
proof -
  have "snd (scan pn pre) = None" using assms(2) by (rule scan_fits)
  then show ?thesis using scan_append [OF assms(1), of pn post] by (cases "scan pn pre") simp
qed

lemma scan_stops: "[] \<in> set pre \<Longrightarrow> scan pn (pre @ post) = scan pn pre"
proof (induction pre arbitrary: pn)
  case Nil
  then show ?case by simp
next
  case (Cons l ls)
  show ?case
  proof (cases "l = []")
    case True
    then show ?thesis by simp
  next
    case l: False
    then have ls: "[] \<in> set ls" using Cons.prems by auto
    show ?thesis
    proof (cases "first_match event_detail_regexes l")
      case None
      show ?thesis
        using scan_no_kill [OF l None, of pn ls] scan_no_kill [OF l None, of pn "ls @ post"]
          Cons.IH [OF ls]
        by simp
    next
      case (Some r)
      show ?thesis
      proof (cases "int_max_str_digits < length (group r 1)")
        case True
        show ?thesis
          using scan_kill_refused [OF l Some True, of pn ls]
            scan_kill_refused [OF l Some True, of pn "ls @ post"]
          by simp
      next
        case False
        then have f: "length (group r 1) \<le> int_max_str_digits" by simp
        show ?thesis
          using scan_kill [OF l Some f, of pn ls] scan_kill [OF l Some f, of pn "ls @ post"]
            Cons.IH [OF ls, of "[]"]
          by simp
      qed
    qed
  qed
qed

lemma scan_length: "length (fst (scan pn ls)) \<le> length ls"
proof (induction ls arbitrary: pn)
  case Nil
  then show ?case by simp
next
  case (Cons l ls)
  show ?case
  proof (cases "l = []")
    case True
    then show ?thesis by simp
  next
    case l: False
    show ?thesis
    proof (cases "first_match event_detail_regexes l")
      case None
      have "length (fst (scan (case search process_name_regex l of
          Some c \<Rightarrow> group c 1 | None \<Rightarrow> pn) ls)) \<le> Suc (length ls)"
        by (rule le_SucI) (rule Cons.IH)
      then show ?thesis using scan_no_kill [OF l None, of pn ls] by simp
    next
      case (Some r)
      show ?thesis
      proof (cases "int_max_str_digits < length (group r 1)")
        case True
        show ?thesis using scan_kill_refused [OF l Some True, of pn ls] by simp
      next
        case False
        then have "length (group r 1) \<le> int_max_str_digits" by simp
        from scan_kill [OF l Some this, of pn ls] show ?thesis using Cons.IH [of "[]"] by simp
      qed
    qed
  qed
qed

lemma scan_contribution:
  "\<exists>c. length c \<le> 1 \<and> fst (scan pn (pre @ [line])) = fst (scan pn pre) @ c"
proof (cases "[] \<in> set pre")
  case True
  then have "fst (scan pn (pre @ [line])) = fst (scan pn pre) @ []"
    by (simp add: scan_stops)
  then show ?thesis by (intro exI [of _ "[]"]) simp
next
  case False
  obtain occs ending where o: "scan pn pre = (occs, ending)" by (cases "scan pn pre")
  show ?thesis
  proof (cases ending)
    case None
    then have "fst (scan pn (pre @ [line])) = fst (scan pn pre) @ fst (scan (pending pn pre) [line])"
      using scan_append [OF False, of pn "[line]"] o by simp
    moreover have "length (fst (scan (pending pn pre) [line])) \<le> 1"
      using scan_length [of "pending pn pre" "[line]"] by simp
    ultimately show ?thesis by blast
  next
    case (Some e)
    then have "fst (scan pn (pre @ [line])) = fst (scan pn pre) @ []"
      using scan_append [OF False, of pn "[line]"] o by simp
    then show ?thesis by (intro exI [of _ "[]"]) simp
  qed
qed

lemma pending_append:
  "pending pn (pre @ post) = pending (pending pn pre) post"
  by (induction pre arbitrary: pn) (auto simp: Let_def split: option.splits)

lemma pending_origin:
  "pending pn ls = pn \<or> pending pn ls = []
   \<or> (\<exists>l\<in>set ls. \<exists>c. search process_name_regex l = Some c \<and> group c 1 = pending pn ls)"
proof (induction ls arbitrary: pn)
  case Nil
  then show ?case by simp
next
  case (Cons l ls)
  show ?case
  proof (cases "first_match event_detail_regexes l")
    case None
    show ?thesis
    proof (cases "search process_name_regex l")
      case n: None
      then show ?thesis using None Cons.IH [of pn] by auto
    next
      case (Some c)
      then show ?thesis using None Cons.IH [of "group c 1"] by auto
    qed
  next
    case (Some r)
    then show ?thesis using Cons.IH [of "[]"] by (auto simp: Let_def)
  qed
qed

lemma pending_quiet:
  "\<forall>l\<in>set ls. search process_name_regex l = None \<Longrightarrow>
   pending pn ls = pn \<or> pending pn ls = []"
  using pending_origin [of pn ls] by auto

lemma pending_idle:
  "\<forall>l\<in>set ls. search process_name_regex l = None \<and> first_match event_detail_regexes l = None
   \<Longrightarrow> pending pn ls = pn"
  by (induction ls arbitrary: pn) auto

lemma pending_kill:
  "first_match event_detail_regexes k = Some r \<Longrightarrow> pending pn (pre @ [k]) = []"
  by (simp add: pending_append Let_def)

lemma first_match_Some_iff:
  "first_match rs line = Some c \<longleftrightarrow>
     (\<exists>i<length rs. search (rs ! i) line = Some c \<and> (\<forall>j<i. search (rs ! j) line = None))"
proof (induction rs)
  case Nil
  then show ?case by simp
next
  case (Cons r rs)
  show ?case
  proof (cases "search r line")
    case None
    have "(\<exists>i<length (r # rs). search ((r # rs) ! i) line = Some c
            \<and> (\<forall>j<i. search ((r # rs) ! j) line = None))
        \<longleftrightarrow> (\<exists>i<length rs. search (rs ! i) line = Some c
            \<and> (\<forall>j<i. search (rs ! j) line = None))"
      (is "?L \<longleftrightarrow> ?R")
    proof
      assume ?L
      then obtain i where i: "i < length (r # rs)" "search ((r # rs) ! i) line = Some c"
        "\<forall>j<i. search ((r # rs) ! j) line = None" by blast
      then obtain i' where "i = Suc i'" using None by (cases i) auto
      then have "i' < length rs \<and> search (rs ! i') line = Some c
         \<and> (\<forall>j<i'. search (rs ! j) line = None)"
        using i by auto
      then show ?R by blast
    next
      assume ?R
      then obtain i where i: "i < length rs" "search (rs ! i) line = Some c"
        "\<forall>j<i. search (rs ! j) line = None" by blast
      have "\<forall>j<Suc i. search ((r # rs) ! j) line = None"
      proof (intro allI impI)
        fix j assume "j < Suc i"
        then show "search ((r # rs) ! j) line = None" using i None by (cases j) auto
      qed
      then have "Suc i < length (r # rs) \<and> search ((r # rs) ! Suc i) line = Some c
         \<and> (\<forall>j<Suc i. search ((r # rs) ! j) line = None)" using i by simp
      then show ?L by blast
    qed
    then show ?thesis using None Cons.IH by simp
  next
    case (Some a)
    have "(\<exists>i<length (r # rs). search ((r # rs) ! i) line = Some c
            \<and> (\<forall>j<i. search ((r # rs) ! j) line = None)) \<longleftrightarrow> a = c"
    proof
      assume "\<exists>i<length (r # rs). search ((r # rs) ! i) line = Some c
            \<and> (\<forall>j<i. search ((r # rs) ! j) line = None)"
      then obtain i where i: "search ((r # rs) ! i) line = Some c"
        "\<forall>j<i. search ((r # rs) ! j) line = None" by blast
      then have "i = 0" using Some by (cases i) auto
      then show "a = c" using i Some by simp
    next
      assume "a = c"
      then have "0 < length (r # rs) \<and> search ((r # rs) ! 0) line = Some c
        \<and> (\<forall>j<0. search ((r # rs) ! j) line = None)" using Some by simp
      then show "\<exists>i<length (r # rs). search ((r # rs) ! i) line = Some c
            \<and> (\<forall>j<i. search ((r # rs) ! j) line = None)" by blast
    qed
    then show ?thesis using Some by simp
  qed
qed

lemma first_match_None:
  "\<forall>r\<in>set rs. search r line = None \<Longrightarrow> first_match rs line = None"
  by (induction rs) auto

lemma occurrence_origin:
  "(t, h, cid, p) \<in> set (fst (scan pn lines)) \<Longrightarrow>
   \<exists>pre k post r. lines = pre @ k # post \<and> first_match event_detail_regexes k = Some r
     \<and> t = digits_value (group r 1) \<and> h = group r 2 \<and> cid = group r 3
     \<and> (p = pn \<or> p = []
        \<or> (\<exists>l\<in>set (pre @ [k]). \<exists>c. search process_name_regex l = Some c \<and> group c 1 = p))"
proof (induction lines arbitrary: pn)
  case Nil
  then show ?case by simp
next
  case (Cons l ls)
  then have l: "l \<noteq> []" by (auto split: if_splits)
  define pn' where "pn' = (case search process_name_regex l of Some c \<Rightarrow> group c 1 | None \<Rightarrow> pn)"
  have pn': "pn' = pn \<or> (\<exists>c. search process_name_regex l = Some c \<and> group c 1 = pn')"
    unfolding pn'_def by (cases "search process_name_regex l") auto
  show ?case
  proof (cases "first_match event_detail_regexes l")
    case None
    have "scan pn (l # ls) = scan pn' ls" using scan_no_kill [OF l None] unfolding pn'_def .
    then have "(t, h, cid, p) \<in> set (fst (scan pn' ls))" using Cons.prems by simp
    from Cons.IH [OF this] obtain pre k post r where
      a: "ls = pre @ k # post" "first_match event_detail_regexes k = Some r"
         "t = digits_value (group r 1)" "h = group r 2" "cid = group r 3"
         "p = pn' \<or> p = []
          \<or> (\<exists>l\<in>set (pre @ [k]). \<exists>c. search process_name_regex l = Some c \<and> group c 1 = p)"
      by blast
    have "l # ls = (l # pre) @ k # post" using a(1) by simp
    moreover have "p = pn \<or> p = []
        \<or> (\<exists>l'\<in>set ((l # pre) @ [k]). \<exists>c. search process_name_regex l' = Some c \<and> group c 1 = p)"
      using a(6) pn' by auto
    ultimately show ?thesis using a(2-5) by blast
  next
    case (Some r)
    show ?thesis
    proof (cases "int_max_str_digits < length (group r 1)")
      case True
      then have "scan pn (l # ls) = ([], Some ValueError)"
        using l Some by (intro scan_kill_refused)
      then show ?thesis using Cons.prems by simp
    next
      case False
      then have s: "scan pn (l # ls) =
          ((digits_value (group r 1), group r 2, group r 3, pn') # fst (scan [] ls),
           snd (scan [] ls))"
        using l Some unfolding pn'_def by (intro scan_kill) auto
      from Cons.prems s consider
        "(t, h, cid, p) = (digits_value (group r 1), group r 2, group r 3, pn')"
        | "(t, h, cid, p) \<in> set (fst (scan [] ls))" by auto
      then show ?thesis
      proof cases
        case 1
        have "l # ls = [] @ l # ls" by simp
        moreover have "p = pn \<or> p = []
            \<or> (\<exists>l'\<in>set ([] @ [l]). \<exists>c. search process_name_regex l' = Some c \<and> group c 1 = p)"
          using 1 pn' by auto
        ultimately show ?thesis using 1 Some by blast
      next
        case 2
        from Cons.IH [OF 2] obtain pre k post r' where
          a: "ls = pre @ k # post" "first_match event_detail_regexes k = Some r'"
             "t = digits_value (group r' 1)" "h = group r' 2" "cid = group r' 3"
             "p = [] \<or> p = []
              \<or> (\<exists>l\<in>set (pre @ [k]). \<exists>c. search process_name_regex l = Some c \<and> group c 1 = p)"
          by blast
        have "l # ls = (l # pre) @ k # post" using a(1) by simp
        moreover have "p = pn \<or> p = []
            \<or> (\<exists>l'\<in>set ((l # pre) @ [k]). \<exists>c. search process_name_regex l' = Some c
                 \<and> group c 1 = p)"
          using a(6) by auto
        ultimately show ?thesis using a(2-5) by blast
      qed
    qed
  qed
qed

lemma scan_then_kill:
  assumes "[] \<notin> set pre" and "\<forall>l\<in>set pre. timestamp_fits l" and "k \<noteq> []"
    and "first_match event_detail_regexes k = Some r"
    and "length (group r 1) \<le> int_max_str_digits"
  shows "scan [] (pre @ k # post) =
     (fst (scan [] pre)
        @ (digits_value (group r 1), group r 2, group r 3,
           (case search process_name_regex k of Some c \<Rightarrow> group c 1 | None \<Rightarrow> pending [] pre))
        # fst (scan [] post),
      snd (scan [] post))"
  using scan_append_fits [OF assms(1,2), of "[]" "k # post"]
    scan_kill [OF assms(3,4,5), of "pending [] pre" post]
  by simp

section \<open>The sample lines, evaluated\<close>

lemma sample_lines_nonempty:
  "line_invoked \<noteq> []" "line_docker_kill \<noteq> []" "line_other \<noteq> []" "line_both \<noteq> []"
  "line_two_layouts \<noteq> []" "line_systemd_12 \<noteq> []" "line_systemd_64 \<noteq> []"
  "line_dotted_host \<noteq> []"
  by (simp_all add: line_invoked_def line_docker_kill_def line_other_def line_both_def
      line_two_layouts_def line_systemd_12_def line_systemd_64_def line_dotted_host_def)

lemma invoked_is_process_name_line:
  "search process_name_regex line_invoked = Some [(1, ''java'')]"
  by code_simp

lemma invoked_is_no_kill_line: "first_match event_detail_regexes line_invoked = None"
  by code_simp

lemma docker_kill_is_no_process_name_line: "search process_name_regex line_docker_kill = None"
  by code_simp

lemma docker_kill_search:
  "search oom_regex_docker line_docker_kill = Some [(3, ''abcdef012345''), (2, ''hostB''), (1, ''2'')]"
  by code_simp

lemma docker_kill_is_kill_line:
  "first_match event_detail_regexes line_docker_kill
     = Some [(3, ''abcdef012345''), (2, ''hostB''), (1, ''2'')]"
  by (simp add: event_detail_regexes_def docker_kill_search)

lemma other_is_no_process_name_line: "search process_name_regex line_other = None"
  by code_simp

lemma other_is_no_kill_line: "first_match event_detail_regexes line_other = None"
  by code_simp

lemma both_is_process_name_line: "search process_name_regex line_both = Some [(1, ''p'')]"
  by code_simp

lemma both_search:
  "search oom_regex_docker line_both = Some [(3, ''0123456789ab''), (2, ''h''), (1, ''1'')]"
  by code_simp

lemma two_layouts_docker: "search oom_regex_docker line_two_layouts = None"
  by code_simp

lemma two_layouts_kubernetes:
  "search oom_regex_kubernetes line_two_layouts
     = Some [(3, ''bbbbbbbbbbbb''), (2, ''h''), (1, ''1'')]"
  by code_simp

lemma two_layouts_structured:
  "search oom_regex_kubernetes_structured line_two_layouts
     = Some [(3, ''cccccccccccc''), (2, ''h''), (1, ''1'')]"
  by code_simp

lemma two_layouts_no_process_name: "search process_name_regex line_two_layouts = None"
  by code_simp

lemma systemd_12_is_no_kill_line: "first_match event_detail_regexes line_systemd_12 = None"
  by code_simp



lemma docker_kill_field: "fields line_docker_kill ! 1 = ''hostB''"
  by code_simp

lemma invoked_field: "fields line_invoked ! 1 = ''hostA''"
  by code_simp

lemma systemd_64_counts:
  "occurrences ''task_memcg=/kubepods.slice/'' line_systemd_64 = 1"
  "occurrences ''Task'' line_systemd_64 = 0"
  "occurrences ''task_memcg=/kubepods/'' line_systemd_64 = 0"
  by code_simp+

lemma digits_value_small:
  "digits_value ''1'' = 1" "digits_value ''2'' = 2" "digits_value ''5'' = 5"
  "digits_value ''1720128512'' = 1720128512"
  by (simp_all add: digits_value_def digit_val_def)

lemma sample_lines_fit:
  "timestamp_fits line_invoked" "timestamp_fits line_docker_kill" "timestamp_fits line_other"
  by (simp_all add: timestamp_fits_def invoked_is_no_kill_line docker_kill_is_kill_line
      other_is_no_kill_line group_def int_max_str_digits_def)

lemma docker_kill_scanned:
  "scan pn (line_docker_kill # post) =
     ((2, ''hostB'', ''abcdef012345'', pn) # fst (scan [] post), snd (scan [] post))"
  using scan_kill [OF sample_lines_nonempty(2) docker_kill_is_kill_line, of pn post]
  by (simp add: group_def int_max_str_digits_def digits_value_small
      docker_kill_is_no_process_name_line)

lemma invoked_scanned: "scan pn (line_invoked # post) = scan ''java'' post"
  using scan_no_kill [OF sample_lines_nonempty(1) invoked_is_no_kill_line, of pn post]
  by (simp add: group_def invoked_is_process_name_line)

lemma other_scanned: "scan pn (line_other # post) = scan pn post"
  using scan_no_kill [OF sample_lines_nonempty(3) other_is_no_kill_line, of pn post]
  by (simp add: other_is_no_process_name_line)

section \<open>Properties of the resolver, the enricher and the main loop\<close>

text \<open>
  C3. The claim: where the config section (\<open>process\<close> on the containerd path, \<open>Config\<close> on
  the classic-engine path) is absent or null, \<open>get_container_env_as_dict\<close> returns an empty
  map and raises nothing. The code reads \<open>config.get\<close> before its test
  \<open>if config is not None\<close>: on the four payloads below, where the section is absent or
  null, the call raises \<open>AttributeError\<close>.
\<close>

theorem null_config_raises:
  "get_container_env_as_dict True (JObj []) = Inl AttributeError
   \<and> get_container_env_as_dict True (JObj [(''process'', JNull)]) = Inl AttributeError
   \<and> get_container_env_as_dict False (JObj []) = Inl AttributeError
   \<and> get_container_env_as_dict False (JObj [(''Config'', JNull)]) = Inl AttributeError"
  by (simp add: get_container_env_as_dict_def)

text \<open>
  C9. For every environment map, the event's \<open>service\<close> is the value of \<open>PAASTA_SERVICE\<close>
  or \<open>unknown\<close>, its \<open>instance\<close> the value of \<open>PAASTA_INSTANCE\<close> or \<open>unknown\<close>, its
  \<open>mesos_container_id\<close> the value of \<open>MESOS_CONTAINER_NAME\<close> or \<open>mesos-null\<close>, and its
  \<open>mem_limit\<close> the value of \<open>PAASTA_RESOURCE_MEM\<close> or \<open>unknown\<close>; each field looks at its own
  variable only.
\<close>

theorem log_line_defaults:
  "service (make_log_line clu occ env_vars) =
       (case env_vars ''PAASTA_SERVICE'' of Some v \<Rightarrow> v | None \<Rightarrow> ''unknown'')
   \<and> instance_name (make_log_line clu occ env_vars) =
       (case env_vars ''PAASTA_INSTANCE'' of Some v \<Rightarrow> v | None \<Rightarrow> ''unknown'')
   \<and> mesos_container_id (make_log_line clu occ env_vars) =
       (case env_vars ''MESOS_CONTAINER_NAME'' of Some v \<Rightarrow> v | None \<Rightarrow> ''mesos-null'')
   \<and> mem_limit (make_log_line clu occ env_vars) =
       (case env_vars ''PAASTA_RESOURCE_MEM'' of Some v \<Rightarrow> v | None \<Rightarrow> ''unknown'')"
  by (simp add: make_log_line_def env_get_def split: prod.splits)

text \<open>
  C1, as the code has it. An \<open>APIError\<close> of the classic engine's lookup, or an \<open>RpcError\<close>
  of the containerd lookup, drops the occurrence and nothing more: the body of the loop
  ends without an exception and without a call of a sink (containerd prints one line),
  and the loop goes on with the occurrences that follow.
\<close>

theorem lookup_error_dropped:
  "(\<not> args_containerd w \<and> inspect_container w cid = Inl APIError)
     \<or> (args_containerd w \<and> get_containerd_container w cid = Inl RpcError) \<Longrightarrow>
   handle_occurrence w (ts, host, cid, pn) =
     ((if args_containerd w then [Print ''An error occurred while getting the container:'']
       else []), None)
   \<and> main_loop w ((ts, host, cid, pn) # occs) =
       ((if args_containerd w then [Print ''An error occurred while getting the container:'']
         else []) @ fst (main_loop w occs),
        snd (main_loop w occs))"
  by (auto simp: handle_occurrence_def lookup_def split: prod.splits)

theorem lookup_error_dropped_witness:
  "args_containerd (lookup_fails_world True ''aaaaaaaaaaaa'' RpcError)
   \<and> get_containerd_container (lookup_fails_world True ''aaaaaaaaaaaa'' RpcError)
        ''aaaaaaaaaaaa'' = Inl RpcError
   \<and> \<not> args_containerd (lookup_fails_world False ''aaaaaaaaaaaa'' APIError)
   \<and> inspect_container (lookup_fails_world False ''aaaaaaaaaaaa'' APIError) ''aaaaaaaaaaaa''
        = Inl APIError
   \<and> handle_occurrence (lookup_fails_world True ''aaaaaaaaaaaa'' RpcError)
        (1, ''h'', ''aaaaaaaaaaaa'', []) =
       ([Print ''An error occurred while getting the container:''], None)
   \<and> main_loop (lookup_fails_world False ''aaaaaaaaaaaa'' APIError)
        [(1, ''h'', ''aaaaaaaaaaaa'', []), (2, ''h'', ''bbbbbbbbbbbb'', [])] =
       main_loop (lookup_fails_world False ''aaaaaaaaaaaa'' APIError)
        [(2, ''h'', ''bbbbbbbbbbbb'', [])]"
proof -
  have c: "args_containerd (lookup_fails_world True ''aaaaaaaaaaaa'' RpcError)
     \<and> get_containerd_container (lookup_fails_world True ''aaaaaaaaaaaa'' RpcError)
        ''aaaaaaaaaaaa'' = Inl RpcError"
    by (simp add: lookup_fails_world_def sample_world_def)
  have d: "\<not> args_containerd (lookup_fails_world False ''aaaaaaaaaaaa'' APIError)
     \<and> inspect_container (lookup_fails_world False ''aaaaaaaaaaaa'' APIError) ''aaaaaaaaaaaa''
        = Inl APIError"
    by (simp add: lookup_fails_world_def sample_world_def)
  have "handle_occurrence (lookup_fails_world True ''aaaaaaaaaaaa'' RpcError)
        (1, ''h'', ''aaaaaaaaaaaa'', []) =
       ([Print ''An error occurred while getting the container:''], None)"
    using lookup_error_dropped [OF disjI2, OF c, of 1 "''h''" "[]" "[]"] c by simp
  moreover have "main_loop (lookup_fails_world False ''aaaaaaaaaaaa'' APIError)
        [(1, ''h'', ''aaaaaaaaaaaa'', []), (2, ''h'', ''bbbbbbbbbbbb'', [])] =
       main_loop (lookup_fails_world False ''aaaaaaaaaaaa'' APIError)
        [(2, ''h'', ''bbbbbbbbbbbb'', [])]"
    using lookup_error_dropped [OF disjI1, OF d, of 1 "''h''" "[]"
        "[(2, ''h'', ''bbbbbbbbbbbb'', [])]"] d
    by simp
  ultimately show ?thesis using c d by blast
qed

text \<open>
  C1, as the claim has it, fails for the decode failures: the decoding of the containerd
  payload (\<open>decode("utf-8")\<close>, \<open>json.loads\<close>) stands outside the \<open>try\<close> of the lookup. In
  \<open>garbled_world\<close> the exception leaves the loop at the first occurrence, and the second
  occurrence, which resolves when it comes alone, is never handled.
\<close>

theorem decode_failure_escapes:
  "main_loop garbled_world
     [(1, ''h'', ''aaaaaaaaaaaa'', []), (2, ''h'', ''cccccccccccc'', [])] =
     ([], Some UnicodeDecodeError)
   \<and> main_loop garbled_world
     [(1, ''h'', ''bbbbbbbbbbbb'', []), (2, ''h'', ''cccccccccccc'', [])] =
     ([], Some JSONDecodeError)
   \<and> snd (main_loop garbled_world [(2, ''h'', ''cccccccccccc'', [])]) = None
   \<and> length (fst (main_loop garbled_world [(2, ''h'', ''cccccccccccc'', [])])) = 2"
  by (simp add: garbled_world_def sample_world_def handle_occurrence_def lookup_def
      get_container_env_as_dict_def dispatch_def log_to_clog_def log_to_paasta_def
      send_sfx_event_def partition_eq_def)

text \<open>
  C2, as the code has it. The three sinks are called in the order structured-event sink,
  operator log sink, metrics sink. A sink that raises ends the dispatch: the sinks after
  it are not called, and the exception leaves the body of the loop.
\<close>

theorem dispatch_in_order:
  "(clog_log_line w ''tmp_paasta_oom_events'' (clog_line ll) = Some e \<longrightarrow>
      dispatch w ll = ([Clog_log_line ''tmp_paasta_oom_events'' (clog_line ll)], Some e))
   \<and> (clog_log_line w ''tmp_paasta_oom_events'' (clog_line ll) = None
      \<and> paasta_log w (service ll) (instance_name ll) ''oom'' (cluster ll) (default_loglevel w)
           (paasta_line ll) = Some e \<longrightarrow>
      dispatch w ll =
        ([Clog_log_line ''tmp_paasta_oom_events'' (clog_line ll),
          Paasta_log (service ll) (instance_name ll) ''oom'' (cluster ll) (default_loglevel w)
            (paasta_line ll)], Some e))
   \<and> (clog_log_line w ''tmp_paasta_oom_events'' (clog_line ll) = None
      \<and> paasta_log w (service ll) (instance_name ll) ''oom'' (cluster ll) (default_loglevel w)
           (paasta_line ll) = None \<longrightarrow>
      dispatch w ll =
        ([Clog_log_line ''tmp_paasta_oom_events'' (clog_line ll),
          Paasta_log (service ll) (instance_name ll) ''oom'' (cluster ll) (default_loglevel w)
            (paasta_line ll)]
         @ fst (send_sfx_event w (service ll) (instance_name ll) (get_cluster w)),
         snd (send_sfx_event w (service ll) (instance_name ll) (get_cluster w))))"
  by (auto simp: dispatch_def log_to_clog_def log_to_paasta_def split: prod.splits)

theorem dispatch_in_order_witness:
  "clog_log_line (clog_fails_world (Other ''scribe'')) ''tmp_paasta_oom_events''
      (clog_line (make_log_line ''norcal'' (1, ''h'', ''aaaaaaaaaaaa'', []) Map.empty))
     = Some (Other ''scribe'')
   \<and> dispatch (clog_fails_world (Other ''scribe''))
       (make_log_line ''norcal'' (1, ''h'', ''aaaaaaaaaaaa'', []) Map.empty) =
      ([Clog_log_line ''tmp_paasta_oom_events''
          (clog_line (make_log_line ''norcal'' (1, ''h'', ''aaaaaaaaaaaa'', []) Map.empty))],
       Some (Other ''scribe''))
   \<and> clog_log_line (paasta_fails_world (Other ''log'')) ''tmp_paasta_oom_events''
      (clog_line (make_log_line ''norcal'' (1, ''h'', ''aaaaaaaaaaaa'', []) Map.empty)) = None
   \<and> paasta_log (paasta_fails_world (Other ''log'')) ''unknown'' ''unknown'' ''oom'' ''norcal''
       ''event'' (paasta_line (make_log_line ''norcal'' (1, ''h'', ''aaaaaaaaaaaa'', []) Map.empty))
     = Some (Other ''log'')
   \<and> dispatch (paasta_fails_world (Other ''log''))
       (make_log_line ''norcal'' (1, ''h'', ''aaaaaaaaaaaa'', []) Map.empty) =
      ([Clog_log_line ''tmp_paasta_oom_events''
          (clog_line (make_log_line ''norcal'' (1, ''h'', ''aaaaaaaaaaaa'', []) Map.empty)),
        Paasta_log ''unknown'' ''unknown'' ''oom'' ''norcal'' ''event''
          (paasta_line (make_log_line ''norcal'' (1, ''h'', ''aaaaaaaaaaaa'', []) Map.empty))],
       Some (Other ''log''))
   \<and> clog_log_line (sample_world False) ''tmp_paasta_oom_events''
      (clog_line (make_log_line ''norcal'' (1, ''h'', ''aaaaaaaaaaaa'', []) Map.empty)) = None
   \<and> paasta_log (sample_world False) ''unknown'' ''unknown'' ''oom'' ''norcal''
       ''event'' (paasta_line (make_log_line ''norcal'' (1, ''h'', ''aaaaaaaaaaaa'', []) Map.empty))
     = None
   \<and> dispatch (sample_world False)
       (make_log_line ''norcal'' (1, ''h'', ''aaaaaaaaaaaa'', []) Map.empty) =
      ([Clog_log_line ''tmp_paasta_oom_events''
          (clog_line (make_log_line ''norcal'' (1, ''h'', ''aaaaaaaaaaaa'', []) Map.empty)),
        Paasta_log ''unknown'' ''unknown'' ''oom'' ''norcal'' ''event''
          (paasta_line (make_log_line ''norcal'' (1, ''h'', ''aaaaaaaaaaaa'', []) Map.empty))],
       None)"
  using dispatch_in_order [of "clog_fails_world (Other ''scribe'')"
      "make_log_line ''norcal'' (1, ''h'', ''aaaaaaaaaaaa'', []) Map.empty" "Other ''scribe''"]
    dispatch_in_order [of "paasta_fails_world (Other ''log'')"
      "make_log_line ''norcal'' (1, ''h'', ''aaaaaaaaaaaa'', []) Map.empty" "Other ''log''"]
    dispatch_in_order [of "sample_world False"
      "make_log_line ''norcal'' (1, ''h'', ''aaaaaaaaaaaa'', []) Map.empty" "Other ''log''"]
  by (simp add: clog_fails_world_def paasta_fails_world_def sample_world_def
      make_log_line_def env_get_def send_sfx_event_def)

text \<open>
  C2, as the claim has it, fails: when the structured-event sink raises, neither the
  operator log sink nor the metrics sink is called for the occurrence, and the loop ends
  there.
\<close>

theorem sink_failure_blocks_the_rest:
  "main_loop (clog_fails_world (Other ''scribe''))
     [(1, ''h'', ''aaaaaaaaaaaa'', []), (2, ''h'', ''bbbbbbbbbbbb'', [])] =
     ([Clog_log_line ''tmp_paasta_oom_events''
         (clog_line (make_log_line ''norcal'' (1, ''h'', ''aaaaaaaaaaaa'', [])
            [''PAASTA_SERVICE'' \<mapsto> ''web'', ''PAASTA_INSTANCE'' \<mapsto> ''main'']))],
      Some (Other ''scribe''))"
  by (simp add: clog_fails_world_def sample_world_def handle_occurrence_def lookup_def
      get_container_env_as_dict_def dispatch_def log_to_clog_def partition_eq_def)

section \<open>The end-to-end example\<close>

text \<open>
  C6. The single line of the example, with or without the newline that \<open>readline\<close>
  leaves at its end, yields exactly the occurrence
  \<open>(1700000000, "nodeA", "abcdef012345", "")\<close> and the scanner ends without error; with the environment map of the example
  the event has the service \<open>web\<close>, the instance \<open>main\<close>, the memory limit \<open>unknown\<close> and
  the mesos container id \<open>mesos-null\<close>.
\<close>

theorem end_to_end_example:
  "capture_oom_events_from_stdin
     [''1700000000 nodeA kernel: Task in /docker/abcdef012345abcdef killed as a result of limit of /docker/abcdef012345abcdef'']
     = ([(1700000000, ''nodeA'', ''abcdef012345'', [])], None)
   \<and> capture_oom_events_from_stdin
     [''1700000000 nodeA kernel: Task in /docker/abcdef012345abcdef killed as a result of limit of /docker/abcdef012345abcdef'' @ [CHR 0x0A]]
     = ([(1700000000, ''nodeA'', ''abcdef012345'', [])], None)
   \<and> service (make_log_line clu (1700000000, ''nodeA'', ''abcdef012345'', [])
        [''PAASTA_SERVICE'' \<mapsto> ''web'', ''PAASTA_INSTANCE'' \<mapsto> ''main'']) = ''web''
   \<and> instance_name (make_log_line clu (1700000000, ''nodeA'', ''abcdef012345'', [])
        [''PAASTA_SERVICE'' \<mapsto> ''web'', ''PAASTA_INSTANCE'' \<mapsto> ''main'']) = ''main''
   \<and> mem_limit (make_log_line clu (1700000000, ''nodeA'', ''abcdef012345'', [])
        [''PAASTA_SERVICE'' \<mapsto> ''web'', ''PAASTA_INSTANCE'' \<mapsto> ''main'']) = ''unknown''
   \<and> mesos_container_id (make_log_line clu (1700000000, ''nodeA'', ''abcdef012345'', [])
        [''PAASTA_SERVICE'' \<mapsto> ''web'', ''PAASTA_INSTANCE'' \<mapsto> ''main'']) = ''mesos-null''
   \<and> get_container_env_as_dict False
        (JObj [(''Config'',
           JObj [(''Env'', JArr [JStr ''PAASTA_SERVICE=web'', JStr ''PAASTA_INSTANCE=main''])])])
       = Inr [''PAASTA_SERVICE'' \<mapsto> ''web'', ''PAASTA_INSTANCE'' \<mapsto> ''main'']"
proof (intro conjI)
  show "capture_oom_events_from_stdin
     [''1700000000 nodeA kernel: Task in /docker/abcdef012345abcdef killed as a result of limit of /docker/abcdef012345abcdef'']
     = ([(1700000000, ''nodeA'', ''abcdef012345'', [])], None)"
    by code_simp
  show "capture_oom_events_from_stdin
     [''1700000000 nodeA kernel: Task in /docker/abcdef012345abcdef killed as a result of limit of /docker/abcdef012345abcdef'' @ [CHR 0x0A]]
     = ([(1700000000, ''nodeA'', ''abcdef012345'', [])], None)"
    by code_simp
qed (simp_all add: make_log_line_def env_get_def get_container_env_as_dict_def partition_eq_def)

section \<open>Properties of the scanner\<close>

text \<open>
  C5. The five kill recognizers are tried in the order classic-engine cgroup path,
  kubernetes cgroupfs path, kubernetes structured kernel message, kubernetes
  systemd+docker, kubernetes systemd+containerd/nerdctl. A line yields at most one
  occurrence: whatever was read before it, reading one more line adds at most one
  occurrence to those yielded so far, and the scanner never yields more occurrences
  than it read lines. For a
  line at any place of the input that the scanner reaches (the lines before it are not
  empty and \<open>int\<close> refuses none of them): when some recognizer matches it, the first one
  of that order that does decides alone, whatever the later ones would capture, and the
  line adds exactly its one occurrence between those of the lines before and those of
  the lines after, unless its timestamp has more than 4300 digits, where \<open>int\<close> raises
  \<open>ValueError\<close> and the line and all that follow yield nothing; when no recognizer
  matches it, it adds no occurrence.
\<close>

theorem first_match_wins:
  "event_detail_regexes =
     [oom_regex_docker, oom_regex_kubernetes, oom_regex_kubernetes_structured,
      oom_regex_kubernetes_systemd_cgroup, oom_regex_kubernetes_containerd_systemd_cgroup]
   \<and> length (fst (scan pn [line])) \<le> 1
   \<and> length (fst (capture_oom_events_from_stdin ls)) \<le> length ls
   \<and> (\<exists>c. length c \<le> 1
         \<and> fst (capture_oom_events_from_stdin (ls @ [line]))
             = fst (capture_oom_events_from_stdin ls) @ c)
   \<and> ([] \<notin> set pre \<and> (\<forall>l\<in>set pre. timestamp_fits l) \<and> line \<noteq> [] \<longrightarrow>
        (\<forall>i c. i < length event_detail_regexes
           \<and> search (event_detail_regexes ! i) line = Some c
           \<and> (\<forall>j<i. search (event_detail_regexes ! j) line = None) \<longrightarrow>
             (length (group c 1) \<le> int_max_str_digits \<longrightarrow>
                capture_oom_events_from_stdin (pre @ line # post) =
                  (fst (capture_oom_events_from_stdin pre)
                     @ (digits_value (group c 1), group c 2, group c 3,
                        (case search process_name_regex line of
                           Some r \<Rightarrow> group r 1 | None \<Rightarrow> pending [] pre))
                     # fst (scan [] post),
                   snd (scan [] post)))
           \<and> (int_max_str_digits < length (group c 1) \<longrightarrow>
                capture_oom_events_from_stdin (pre @ line # post) =
                  (fst (capture_oom_events_from_stdin pre), Some ValueError)))
        \<and> ((\<forall>r\<in>set event_detail_regexes. search r line = None) \<longrightarrow>
             capture_oom_events_from_stdin (pre @ line # post) =
               (fst (capture_oom_events_from_stdin pre)
                  @ fst (scan (case search process_name_regex line of
                                 Some r \<Rightarrow> group r 1 | None \<Rightarrow> pending [] pre) post),
                snd (scan (case search process_name_regex line of
                             Some r \<Rightarrow> group r 1 | None \<Rightarrow> pending [] pre) post))))"
proof -
  have order: "event_detail_regexes =
     [oom_regex_docker, oom_regex_kubernetes, oom_regex_kubernetes_structured,
      oom_regex_kubernetes_systemd_cgroup, oom_regex_kubernetes_containerd_systemd_cgroup]"
    by (simp add: event_detail_regexes_def)
  have one: "length (fst (scan pn [line])) \<le> 1" using scan_length [of pn "[line]"] by simp
  have all: "length (fst (capture_oom_events_from_stdin ls)) \<le> length ls"
    by (simp add: capture_oom_events_from_stdin_def scan_length)
  have stream: "(\<forall>i c. i < length event_detail_regexes
           \<and> search (event_detail_regexes ! i) line = Some c
           \<and> (\<forall>j<i. search (event_detail_regexes ! j) line = None) \<longrightarrow>
             (length (group c 1) \<le> int_max_str_digits \<longrightarrow>
                capture_oom_events_from_stdin (pre @ line # post) =
                  (fst (capture_oom_events_from_stdin pre)
                     @ (digits_value (group c 1), group c 2, group c 3,
                        (case search process_name_regex line of
                           Some r \<Rightarrow> group r 1 | None \<Rightarrow> pending [] pre))
                     # fst (scan [] post),
                   snd (scan [] post)))
           \<and> (int_max_str_digits < length (group c 1) \<longrightarrow>
                capture_oom_events_from_stdin (pre @ line # post) =
                  (fst (capture_oom_events_from_stdin pre), Some ValueError)))
        \<and> ((\<forall>r\<in>set event_detail_regexes. search r line = None) \<longrightarrow>
             capture_oom_events_from_stdin (pre @ line # post) =
               (fst (capture_oom_events_from_stdin pre)
                  @ fst (scan (case search process_name_regex line of
                                 Some r \<Rightarrow> group r 1 | None \<Rightarrow> pending [] pre) post),
                snd (scan (case search process_name_regex line of
                             Some r \<Rightarrow> group r 1 | None \<Rightarrow> pending [] pre) post)))"
    if h: "[] \<notin> set pre \<and> (\<forall>l\<in>set pre. timestamp_fits l) \<and> line \<noteq> []"
  proof -
    have ne: "[] \<notin> set pre" and fit: "\<forall>l\<in>set pre. timestamp_fits l" and l: "line \<noteq> []"
      using h by auto
    have split: "scan [] (pre @ line # post) =
        (fst (scan [] pre) @ fst (scan (pending [] pre) (line # post)),
         snd (scan (pending [] pre) (line # post)))"
      using ne fit by (rule scan_append_fits)
    have short: "capture_oom_events_from_stdin (pre @ line # post) =
          (fst (capture_oom_events_from_stdin pre)
             @ (digits_value (group c 1), group c 2, group c 3,
                (case search process_name_regex line of
                   Some r \<Rightarrow> group r 1 | None \<Rightarrow> pending [] pre))
             # fst (scan [] post),
           snd (scan [] post))"
      if "first_match event_detail_regexes line = Some c"
        and "length (group c 1) \<le> int_max_str_digits" for c
      using scan_then_kill [OF ne fit l that, of post]
      by (simp add: capture_oom_events_from_stdin_def)
    have long: "capture_oom_events_from_stdin (pre @ line # post) =
          (fst (capture_oom_events_from_stdin pre), Some ValueError)"
      if "first_match event_detail_regexes line = Some c"
        and "int_max_str_digits < length (group c 1)" for c
      using split scan_kill_refused [OF l that, of "pending [] pre" post]
      by (simp add: capture_oom_events_from_stdin_def)
    have nomatch: "capture_oom_events_from_stdin (pre @ line # post) =
               (fst (capture_oom_events_from_stdin pre)
                  @ fst (scan (case search process_name_regex line of
                                 Some r \<Rightarrow> group r 1 | None \<Rightarrow> pending [] pre) post),
                snd (scan (case search process_name_regex line of
                             Some r \<Rightarrow> group r 1 | None \<Rightarrow> pending [] pre) post))"
      if "\<forall>r\<in>set event_detail_regexes. search r line = None"
    proof -
      have "first_match event_detail_regexes line = None" using that by (rule first_match_None)
      from scan_no_kill [OF l this, of "pending [] pre" post] show ?thesis
        using split by (simp add: capture_oom_events_from_stdin_def)
    qed
    have first: "first_match event_detail_regexes line = Some c"
      if "i < length event_detail_regexes \<and> search (event_detail_regexes ! i) line = Some c
           \<and> (\<forall>j<i. search (event_detail_regexes ! j) line = None)" for i c
      using that first_match_Some_iff [of event_detail_regexes line c] by blast
    show ?thesis using first short long nomatch by blast
  qed
  have step: "\<exists>c. length c \<le> 1
         \<and> fst (capture_oom_events_from_stdin (ls @ [line]))
             = fst (capture_oom_events_from_stdin ls) @ c"
    using scan_contribution [of "[]" ls line] by (simp add: capture_oom_events_from_stdin_def)
  show ?thesis using order one all step stream by blast
qed

theorem first_match_wins_witness:
  "Suc 0 < length event_detail_regexes
   \<and> search oom_regex_docker line_two_layouts = None
   \<and> search oom_regex_kubernetes line_two_layouts
       = Some [(3, ''bbbbbbbbbbbb''), (2, ''h''), (1, ''1'')]
   \<and> search oom_regex_kubernetes_structured line_two_layouts
       = Some [(3, ''cccccccccccc''), (2, ''h''), (1, ''1'')]
   \<and> line_invoked \<noteq> [] \<and> timestamp_fits line_invoked \<and> line_two_layouts \<noteq> []
   \<and> capture_oom_events_from_stdin ([line_invoked] @ line_two_layouts # [line_docker_kill]) =
       ([(1, ''h'', ''bbbbbbbbbbbb'', ''java''), (2, ''hostB'', ''abcdef012345'', [])], None)"
proof -
  have i: "Suc 0 < length event_detail_regexes" by (simp add: event_detail_regexes_def)
  have s: "search (event_detail_regexes ! Suc 0) line_two_layouts
       = Some [(3, ''bbbbbbbbbbbb''), (2, ''h''), (1, ''1'')]"
    by (simp add: event_detail_regexes_def two_layouts_kubernetes)
  have n: "\<forall>j<Suc 0. search (event_detail_regexes ! j) line_two_layouts = None"
    by (simp add: event_detail_regexes_def two_layouts_docker)
  have p: "[] \<notin> set [line_invoked] \<and> (\<forall>l\<in>set [line_invoked]. timestamp_fits l)
      \<and> line_two_layouts \<noteq> []"
    using sample_lines_nonempty(1,5) sample_lines_fit(1) by simp
  have f: "length (group [(3, ''bbbbbbbbbbbb''), (2, ''h''), (1, ''1'')] 1) \<le> int_max_str_digits"
    by (simp add: group_def int_max_str_digits_def)
  have "capture_oom_events_from_stdin ([line_invoked] @ line_two_layouts # [line_docker_kill]) =
      (fst (capture_oom_events_from_stdin [line_invoked])
         @ (digits_value (group [(3, ''bbbbbbbbbbbb''), (2, ''h''), (1, ''1'')] 1),
            group [(3, ''bbbbbbbbbbbb''), (2, ''h''), (1, ''1'')] 2,
            group [(3, ''bbbbbbbbbbbb''), (2, ''h''), (1, ''1'')] 3,
            (case search process_name_regex line_two_layouts of
               Some r \<Rightarrow> group r 1 | None \<Rightarrow> pending [] [line_invoked]))
         # fst (scan [] [line_docker_kill]),
       snd (scan [] [line_docker_kill]))"
    using first_match_wins [of "[]" line_two_layouts "[]" "[line_invoked]" "[line_docker_kill]"]
      i s n p f
    by blast
  then have "capture_oom_events_from_stdin ([line_invoked] @ line_two_layouts # [line_docker_kill])
      = ([(1, ''h'', ''bbbbbbbbbbbb'', ''java''), (2, ''hostB'', ''abcdef012345'', [])], None)"
    by (simp add: capture_oom_events_from_stdin_def group_def digits_value_small
        two_layouts_no_process_name invoked_scanned docker_kill_scanned
        invoked_is_process_name_line invoked_is_no_kill_line)
  then show ?thesis
    using i two_layouts_docker two_layouts_kubernetes two_layouts_structured
      sample_lines_nonempty(1,5) sample_lines_fit(1) by blast
qed

text \<open>
  C4, as the code has it. The process name is one slot for the whole scan. Take an
  input whose lines are not empty and whose kill lines have timestamps of at most 4300
  digits, so that \<open>int\<close> refuses none. A kill line that is not a process-name line, after
  lines none of which is a process-name line, yields an occurrence with an empty
  process name. After a kill line, a second kill line that is not a process-name line,
  with no process-name line between the two, yields an occurrence with an empty process
  name: the slot was reset. A process-name line that is not a kill line, then lines
  that match nothing, then a kill line that is not a process-name line: the occurrence
  carries the name the process-name line gave. In the three cases the scanner ends
  without error.
\<close>

theorem slot_protocol:
  "([] \<notin> set pre \<and> (\<forall>l\<in>set pre. timestamp_fits l) \<and> k \<noteq> []
      \<and> first_match event_detail_regexes k = Some r
      \<and> length (group r 1) \<le> int_max_str_digits
      \<and> (\<forall>l\<in>set (pre @ [k]). search process_name_regex l = None) \<longrightarrow>
    capture_oom_events_from_stdin (pre @ [k]) =
      (fst (capture_oom_events_from_stdin pre)
         @ [(digits_value (group r 1), group r 2, group r 3, [])], None))
   \<and> ([] \<notin> set (pre @ [k1] @ mid) \<and> (\<forall>l\<in>set (pre @ [k1] @ mid). timestamp_fits l) \<and> k \<noteq> []
      \<and> first_match event_detail_regexes k1 \<noteq> None
      \<and> first_match event_detail_regexes k = Some r
      \<and> length (group r 1) \<le> int_max_str_digits
      \<and> (\<forall>l\<in>set (mid @ [k]). search process_name_regex l = None) \<longrightarrow>
    capture_oom_events_from_stdin (pre @ [k1] @ mid @ [k]) =
      (fst (capture_oom_events_from_stdin (pre @ [k1] @ mid))
         @ [(digits_value (group r 1), group r 2, group r 3, [])], None))
   \<and> ([] \<notin> set (pre @ [l] @ mid) \<and> (\<forall>l'\<in>set (pre @ [l] @ mid). timestamp_fits l') \<and> k \<noteq> []
      \<and> search process_name_regex l = Some c \<and> first_match event_detail_regexes l = None
      \<and> (\<forall>l'\<in>set mid. search process_name_regex l' = None
            \<and> first_match event_detail_regexes l' = None)
      \<and> search process_name_regex k = None
      \<and> first_match event_detail_regexes k = Some r
      \<and> length (group r 1) \<le> int_max_str_digits \<longrightarrow>
    capture_oom_events_from_stdin (pre @ [l] @ mid @ [k]) =
      (fst (capture_oom_events_from_stdin (pre @ [l] @ mid))
         @ [(digits_value (group r 1), group r 2, group r 3, group c 1)], None))"
proof (intro conjI impI)
  assume a: "[] \<notin> set pre \<and> (\<forall>l\<in>set pre. timestamp_fits l) \<and> k \<noteq> []
      \<and> first_match event_detail_regexes k = Some r
      \<and> length (group r 1) \<le> int_max_str_digits
      \<and> (\<forall>l\<in>set (pre @ [k]). search process_name_regex l = None)"
  then have p: "pending [] pre = []" using pending_quiet [of pre "[]"] by auto
  have "scan [] (pre @ k # []) =
     (fst (scan [] pre)
        @ (digits_value (group r 1), group r 2, group r 3,
           (case search process_name_regex k of Some c \<Rightarrow> group c 1 | None \<Rightarrow> pending [] pre))
        # fst (scan [] []),
      snd (scan [] []))"
    using a by (intro scan_then_kill) auto
  then show "capture_oom_events_from_stdin (pre @ [k]) =
      (fst (capture_oom_events_from_stdin pre)
         @ [(digits_value (group r 1), group r 2, group r 3, [])], None)"
    using a p by (simp add: capture_oom_events_from_stdin_def)
next
  assume a: "[] \<notin> set (pre @ [k1] @ mid) \<and> (\<forall>l\<in>set (pre @ [k1] @ mid). timestamp_fits l)
      \<and> k \<noteq> []
      \<and> first_match event_detail_regexes k1 \<noteq> None
      \<and> first_match event_detail_regexes k = Some r
      \<and> length (group r 1) \<le> int_max_str_digits
      \<and> (\<forall>l\<in>set (mid @ [k]). search process_name_regex l = None)"
  then have "pending [] (pre @ [k1]) = []" using pending_kill [of k1 _ "[]" pre] by auto
  moreover have "pending [] mid = []" using a pending_quiet [of mid "[]"] by auto
  ultimately have "pending [] ((pre @ [k1]) @ mid) = []"
    by (simp only: pending_append [of _ "pre @ [k1]" mid])
  then have p: "pending [] (pre @ [k1] @ mid) = []" by simp
  have "scan [] ((pre @ [k1] @ mid) @ k # []) =
     (fst (scan [] (pre @ [k1] @ mid))
        @ (digits_value (group r 1), group r 2, group r 3,
           (case search process_name_regex k of
              Some c \<Rightarrow> group c 1 | None \<Rightarrow> pending [] (pre @ [k1] @ mid)))
        # fst (scan [] []),
      snd (scan [] []))"
    using a by (intro scan_then_kill) auto
  then show "capture_oom_events_from_stdin (pre @ [k1] @ mid @ [k]) =
      (fst (capture_oom_events_from_stdin (pre @ [k1] @ mid))
         @ [(digits_value (group r 1), group r 2, group r 3, [])], None)"
    using a p by (simp add: capture_oom_events_from_stdin_def)
next
  assume a: "[] \<notin> set (pre @ [l] @ mid) \<and> (\<forall>l'\<in>set (pre @ [l] @ mid). timestamp_fits l')
      \<and> k \<noteq> []
      \<and> search process_name_regex l = Some c \<and> first_match event_detail_regexes l = None
      \<and> (\<forall>l'\<in>set mid. search process_name_regex l' = None
            \<and> first_match event_detail_regexes l' = None)
      \<and> search process_name_regex k = None
      \<and> first_match event_detail_regexes k = Some r
      \<and> length (group r 1) \<le> int_max_str_digits"
  then have "pending [] (pre @ [l]) = group c 1" by (simp add: pending_append)
  moreover have "pending (group c 1) mid = group c 1"
    using a pending_idle [of mid "group c 1"] by blast
  ultimately have "pending [] ((pre @ [l]) @ mid) = group c 1"
    by (simp only: pending_append [of _ "pre @ [l]" mid])
  then have p: "pending [] (pre @ [l] @ mid) = group c 1" by simp
  have "scan [] ((pre @ [l] @ mid) @ k # []) =
     (fst (scan [] (pre @ [l] @ mid))
        @ (digits_value (group r 1), group r 2, group r 3,
           (case search process_name_regex k of
              Some c \<Rightarrow> group c 1 | None \<Rightarrow> pending [] (pre @ [l] @ mid)))
        # fst (scan [] []),
      snd (scan [] []))"
    using a by (intro scan_then_kill) auto
  then show "capture_oom_events_from_stdin (pre @ [l] @ mid @ [k]) =
      (fst (capture_oom_events_from_stdin (pre @ [l] @ mid))
         @ [(digits_value (group r 1), group r 2, group r 3, group c 1)], None)"
    using a p by (simp add: capture_oom_events_from_stdin_def)
qed

theorem slot_protocol_witness:
  "line_other \<noteq> [] \<and> line_docker_kill \<noteq> [] \<and> line_invoked \<noteq> []
   \<and> timestamp_fits line_other \<and> timestamp_fits line_docker_kill \<and> timestamp_fits line_invoked
   \<and> first_match event_detail_regexes line_docker_kill
       = Some [(3, ''abcdef012345''), (2, ''hostB''), (1, ''2'')]
   \<and> search process_name_regex line_other = None
   \<and> first_match event_detail_regexes line_other = None
   \<and> search process_name_regex line_docker_kill = None
   \<and> search process_name_regex line_invoked = Some [(1, ''java'')]
   \<and> first_match event_detail_regexes line_invoked = None
   \<and> capture_oom_events_from_stdin ([line_other] @ [line_docker_kill]) =
       (fst (capture_oom_events_from_stdin [line_other])
          @ [(2, ''hostB'', ''abcdef012345'', [])], None)
   \<and> capture_oom_events_from_stdin ([] @ [line_docker_kill] @ [line_other] @ [line_docker_kill]) =
       (fst (capture_oom_events_from_stdin ([] @ [line_docker_kill] @ [line_other]))
          @ [(2, ''hostB'', ''abcdef012345'', [])], None)
   \<and> capture_oom_events_from_stdin ([] @ [line_invoked] @ [line_other] @ [line_docker_kill]) =
       (fst (capture_oom_events_from_stdin ([] @ [line_invoked] @ [line_other]))
          @ [(2, ''hostB'', ''abcdef012345'', ''java'')], None)"
proof -
  have f: "length (group [(3, ''abcdef012345''), (2, ''hostB''), (1, ''2'')] 1)
      \<le> int_max_str_digits"
    by (simp add: group_def int_max_str_digits_def)
  have a: "capture_oom_events_from_stdin ([line_other] @ [line_docker_kill]) =
       (fst (capture_oom_events_from_stdin [line_other])
          @ [(2, ''hostB'', ''abcdef012345'', [])], None)"
    using slot_protocol [where pre = "[line_other]" and k = line_docker_kill
        and r = "[(3, ''abcdef012345''), (2, ''hostB''), (1, ''2'')]"] f
    by (simp add: sample_lines_nonempty sample_lines_nonempty [THEN not_sym] sample_lines_fit
        docker_kill_is_kill_line other_is_no_process_name_line
        docker_kill_is_no_process_name_line group_def digits_value_small)
  have b: "capture_oom_events_from_stdin ([] @ [line_docker_kill] @ [line_other] @ [line_docker_kill]) =
       (fst (capture_oom_events_from_stdin ([] @ [line_docker_kill] @ [line_other]))
          @ [(2, ''hostB'', ''abcdef012345'', [])], None)"
    using slot_protocol [where pre = "[]" and k = line_docker_kill
        and r = "[(3, ''abcdef012345''), (2, ''hostB''), (1, ''2'')]" and ?k1.0 = line_docker_kill
        and mid = "[line_other]"] f
    by (simp add: sample_lines_nonempty sample_lines_nonempty [THEN not_sym] sample_lines_fit
        docker_kill_is_kill_line other_is_no_process_name_line
        docker_kill_is_no_process_name_line group_def digits_value_small)
  have c: "capture_oom_events_from_stdin ([] @ [line_invoked] @ [line_other] @ [line_docker_kill]) =
       (fst (capture_oom_events_from_stdin ([] @ [line_invoked] @ [line_other]))
          @ [(2, ''hostB'', ''abcdef012345'', ''java'')], None)"
    using slot_protocol [where pre = "[]" and k = line_docker_kill
        and r = "[(3, ''abcdef012345''), (2, ''hostB''), (1, ''2'')]" and mid = "[line_other]"
        and l = line_invoked and c = "[(1, ''java'')]"] f
    by (simp add: sample_lines_nonempty sample_lines_nonempty [THEN not_sym] sample_lines_fit
        docker_kill_is_kill_line other_is_no_process_name_line
        other_is_no_kill_line invoked_is_process_name_line invoked_is_no_kill_line
        docker_kill_is_no_process_name_line group_def digits_value_small)
  show ?thesis
    using a b c sample_lines_nonempty sample_lines_fit docker_kill_is_kill_line
      other_is_no_process_name_line other_is_no_kill_line docker_kill_is_no_process_name_line
      invoked_is_process_name_line invoked_is_no_kill_line
    by blast
qed

text \<open>
  C4, as the claim has it, fails on a line that both recognizers match: the
  process-name recognizer is tried on every line before the kill recognizers, so the
  single line \<open>line_both\<close>, a kill line with no line before it, yields an occurrence whose
  process name is not empty.
\<close>

theorem kill_line_that_names_its_process:
  "capture_oom_events_from_stdin [line_both] = ([(1, ''h'', ''0123456789ab'', ''p'')], None)
   \<and> search process_name_regex line_both = Some [(1, ''p'')]"
proof -
  have "first_match event_detail_regexes line_both
      = Some [(3, ''0123456789ab''), (2, ''h''), (1, ''1'')]"
    by (simp add: event_detail_regexes_def both_search)
  from scan_kill [OF sample_lines_nonempty(4) this, of "[]" "[]"]
  have "capture_oom_events_from_stdin [line_both] = ([(1, ''h'', ''0123456789ab'', ''p'')], None)"
    by (simp add: capture_oom_events_from_stdin_def group_def int_max_str_digits_def
        digits_value_small both_is_process_name_line)
  then show ?thesis using both_is_process_name_line by blast
qed

text \<open>
  C8, as the code has it. Every occurrence that the scanner yields with a non-empty
  process name comes from a kill line of the input, and its process name is the group
  captured by the process-name recognizer on a line read at or before that kill line
  (the kill line itself included); the hostname of that line plays no part.
\<close>

theorem process_name_origin:
  assumes "(t, h, cid, p) \<in> set (fst (capture_oom_events_from_stdin lines))" and "p \<noteq> []"
  shows "\<exists>pre k post r. lines = pre @ k # post
           \<and> first_match event_detail_regexes k = Some r
           \<and> t = digits_value (group r 1) \<and> h = group r 2 \<and> cid = group r 3
           \<and> (\<exists>l\<in>set (pre @ [k]). \<exists>c. search process_name_regex l = Some c \<and> group c 1 = p)"
proof -
  from assms(1) have "(t, h, cid, p) \<in> set (fst (scan [] lines))"
    by (simp add: capture_oom_events_from_stdin_def)
  from occurrence_origin [OF this] obtain pre k post r where
    a: "lines = pre @ k # post" "first_match event_detail_regexes k = Some r"
       "t = digits_value (group r 1)" "h = group r 2" "cid = group r 3"
       "p = [] \<or> p = []
        \<or> (\<exists>l\<in>set (pre @ [k]). \<exists>c. search process_name_regex l = Some c \<and> group c 1 = p)"
    by blast
  then have "\<exists>l\<in>set (pre @ [k]). \<exists>c. search process_name_regex l = Some c \<and> group c 1 = p"
    using assms(2) by blast
  then show ?thesis using a(1-5) by blast
qed

theorem process_name_origin_witness:
  "(2, ''hostB'', ''abcdef012345'', ''java'')
      \<in> set (fst (capture_oom_events_from_stdin [line_invoked, line_docker_kill]))
   \<and> ''java'' \<noteq> []
   \<and> (\<exists>pre k post r. [line_invoked, line_docker_kill] = pre @ k # post
         \<and> first_match event_detail_regexes k = Some r
         \<and> 2 = digits_value (group r 1) \<and> ''hostB'' = group r 2 \<and> ''abcdef012345'' = group r 3
         \<and> (\<exists>l\<in>set (pre @ [k]). \<exists>c. search process_name_regex l = Some c
               \<and> group c 1 = ''java''))"
proof -
  have m: "(2, ''hostB'', ''abcdef012345'', ''java'')
      \<in> set (fst (capture_oom_events_from_stdin [line_invoked, line_docker_kill]))"
    by (simp add: capture_oom_events_from_stdin_def invoked_scanned docker_kill_scanned)
  have n: "''java'' \<noteq> []" by simp
  from process_name_origin [OF m n] show ?thesis using m n by blast
qed

text \<open>
  C8, as the claim has it, fails: the slot is not keyed by host. The process name
  \<open>java\<close> of a line of host \<open>hostA\<close> is attached to the occurrence of the kill line of host
  \<open>hostB\<close> that follows, which is no process-name line itself.
\<close>

theorem process_name_crosses_hosts:
  "capture_oom_events_from_stdin [line_invoked, line_docker_kill]
     = ([(2, ''hostB'', ''abcdef012345'', ''java'')], None)
   \<and> fields line_invoked ! 1 = ''hostA''
   \<and> fields line_docker_kill ! 1 = ''hostB''
   \<and> search process_name_regex line_invoked = Some [(1, ''java'')]
   \<and> search process_name_regex line_docker_kill = None"
proof -
  have "capture_oom_events_from_stdin [line_invoked, line_docker_kill]
     = ([(2, ''hostB'', ''abcdef012345'', ''java'')], None)"
    by (simp add: capture_oom_events_from_stdin_def invoked_scanned docker_kill_scanned)
  then show ?thesis
    using invoked_field docker_kill_field invoked_is_process_name_line
      docker_kill_is_no_process_name_line by blast
qed



text \<open>
  C7, as the code has it. Take a line of the kubernetes systemd-cgroup-driver layout:
  a timestamp of at most 4300 digits, a space, a hostname, a space, a message with
  \<open>oom-kill:\<close> and then \<open>task_memcg=/kubepods.slice/\<close>, a non-empty path without comma,
  \<open>docker-\<close>, the id, \<open>.scope,\<close> and the rest, the message on one line. Let the line hold
  the text \<open>task_memcg=/kubepods.slice/\<close> once only, and let none of the three recognizers
  tried before this one match it. If the id segment is made of 13 word characters or
  more, the line yields exactly one occurrence, with that timestamp and hostname, and
  its container id is the first 12 characters of the segment.
\<close>

theorem systemd_layout_occurrence:
  assumes line: "line = ts @ [CHR '' ''] @ hst @ [CHR '' ''] @ a @ ''oom-kill:'' @ b
             @ ''task_memcg=/kubepods.slice/'' @ path @ ''docker-'' @ cid
             @ ''.scope,'' @ rest @ nl"
    and ts: "ts \<noteq> []" "\<forall>x\<in>set ts. is_digit x"
    and hst: "hst \<noteq> []" "\<forall>x\<in>set hst. is_host x"
    and nonl: "\<forall>x\<in>set (a @ b @ rest). x \<noteq> CHR 0x0A" "nl = [] \<or> nl = [CHR 0x0A]"
    and path: "path \<noteq> []" "\<forall>x\<in>set path. x \<noteq> CHR '',''"
    and cid: "\<forall>x\<in>set cid. is_word x" "13 \<le> length cid"
    and once: "occurrences ''task_memcg=/kubepods.slice/'' line = 1"
    and none: "search oom_regex_docker line = None" "search oom_regex_kubernetes line = None"
      "search oom_regex_kubernetes_structured line = None"
    and fits: "length ts \<le> int_max_str_digits"
  shows "\<exists>p. capture_oom_events_from_stdin [line]
           = ([(digits_value ts, hst, take 12 cid, p)], None)"
proof -
  have c: "search oom_regex_kubernetes_systemd_cgroup line
           = Some [(3, take 12 cid), (2, hst), (1, ts)]"
    using line ts hst nonl path cid once by (rule systemd_layout_captures)
  have f: "first_match event_detail_regexes line = Some [(3, take 12 cid), (2, hst), (1, ts)]"
    using c none by (simp add: event_detail_regexes_def)
  have l: "line \<noteq> []" using line ts by simp
  have "length (group [(3, take 12 cid), (2, hst), (1, ts)] 1) \<le> int_max_str_digits"
    using fits by (simp add: group_def)
  from scan_kill [OF l f this, of "[]" "[]"] show ?thesis
    by (simp add: capture_oom_events_from_stdin_def group_def)
qed

theorem systemd_layout_occurrence_witness:
  "occurrences ''task_memcg=/kubepods.slice/'' line_systemd_64 = 1
   \<and> search oom_regex_docker line_systemd_64 = None
   \<and> search oom_regex_kubernetes line_systemd_64 = None
   \<and> search oom_regex_kubernetes_structured line_systemd_64 = None
   \<and> length ''1720128512'' \<le> int_max_str_digits
   \<and> length ''0e7a4ea8ba3c1f2d3c4b5a69788796a5b4c3d2e1f00e7a4ea8ba3c1f2d3c4b5a'' = 64
   \<and> (\<exists>p. capture_oom_events_from_stdin [line_systemd_64]
          = ([(1720128512, ''dev208-uswest1adevc'', ''0e7a4ea8ba3c'', p)], None))"
proof -
  have l: "line_systemd_64 = ''1720128512'' @ [CHR '' ''] @ ''dev208-uswest1adevc'' @ [CHR '' '']
      @ ''kernel: [12345.678901] '' @ ''oom-kill:''
      @ ''constraint=CONSTRAINT_MEMCG,nodemask=(null),cpuset=docker-0e7a4ea8ba3c1f2d3c4b5a69788796a5b4c3d2e1f00e7a4ea8ba3c1f2d3c4b5a.scope,mems_allowed=0-1,oom_memcg=/kubepods.slice/kubepods-burstable.slice/kubepods-burstable-pod0d0f3e5a.slice,''
      @ ''task_memcg=/kubepods.slice/''
      @ ''kubepods-burstable.slice/kubepods-burstable-pod0d0f3e5a.slice/'' @ ''docker-''
      @ ''0e7a4ea8ba3c1f2d3c4b5a69788796a5b4c3d2e1f00e7a4ea8ba3c1f2d3c4b5a''
      @ ''.scope,'' @ ''task=apache2,pid=12345,uid=33'' @ [CHR 0x0A]"
    by (simp add: line_systemd_64_def)
  have w: "\<forall>x\<in>set ''0e7a4ea8ba3c1f2d3c4b5a69788796a5b4c3d2e1f00e7a4ea8ba3c1f2d3c4b5a''. is_word x"
    by code_simp
  have h: "\<forall>x\<in>set ''dev208-uswest1adevc''. is_host x" by code_simp
  have d: "\<forall>x\<in>set ''1720128512''. is_digit x" by code_simp
  have n: "\<forall>x\<in>set (''kernel: [12345.678901] ''
      @ ''constraint=CONSTRAINT_MEMCG,nodemask=(null),cpuset=docker-0e7a4ea8ba3c1f2d3c4b5a69788796a5b4c3d2e1f00e7a4ea8ba3c1f2d3c4b5a.scope,mems_allowed=0-1,oom_memcg=/kubepods.slice/kubepods-burstable.slice/kubepods-burstable-pod0d0f3e5a.slice,''
      @ ''task=apache2,pid=12345,uid=33''). x \<noteq> CHR 0x0A"
    by code_simp
  have p: "\<forall>x\<in>set ''kubepods-burstable.slice/kubepods-burstable-pod0d0f3e5a.slice/''.
      x \<noteq> CHR '',''"
    by code_simp
  have f: "length ''1720128512'' \<le> int_max_str_digits" by (simp add: int_max_str_digits_def)
  note e = earlier_layouts_need_their_marker [OF systemd_64_counts(2,3)]
  from systemd_layout_occurrence [OF l _ d _ h n _ _ p w _ systemd_64_counts(1) e f]
  have "\<exists>p. capture_oom_events_from_stdin [line_systemd_64]
      = ([(digits_value ''1720128512'', ''dev208-uswest1adevc'',
          take 12 ''0e7a4ea8ba3c1f2d3c4b5a69788796a5b4c3d2e1f00e7a4ea8ba3c1f2d3c4b5a'', p)],
         None)"
    by simp
  then have "\<exists>p. capture_oom_events_from_stdin [line_systemd_64]
      = ([(1720128512, ''dev208-uswest1adevc'', ''0e7a4ea8ba3c'', p)], None)"
    by (simp add: digits_value_small)
  then show ?thesis using systemd_64_counts(1) e f by simp
qed

text \<open>
  C7, as the claim has it, fails: the pattern reads \<open>(\w{12})\w+\<close>, twelve captured
  characters and at least one more before \<open>.scope\<close>. A line of the layout whose id segment
  is exactly 12 hexadecimal characters yields no occurrence.
\<close>

theorem systemd_12_not_recognised:
  "line_systemd_12 =
     ''5 dev37 kernel: oom-kill:constraint=CONSTRAINT_MEMCG,task_memcg=/kubepods.slice/pod1.slice/docker-''
     @ ''0e7a4ea8ba3c'' @ ''.scope,task=apache2,pid=1''
   \<and> length ''0e7a4ea8ba3c'' = 12
   \<and> capture_oom_events_from_stdin [line_systemd_12] = ([], None)"
proof -
  from scan_no_kill [OF sample_lines_nonempty(6) systemd_12_is_no_kill_line, of "[]" "[]"]
  have "capture_oom_events_from_stdin [line_systemd_12] = ([], None)"
    by (simp add: capture_oom_events_from_stdin_def)
  moreover have "line_systemd_12 =
     ''5 dev37 kernel: oom-kill:constraint=CONSTRAINT_MEMCG,task_memcg=/kubepods.slice/pod1.slice/docker-''
     @ ''0e7a4ea8ba3c'' @ ''.scope,task=apache2,pid=1''"
    by (simp add: line_systemd_12_def)
  ultimately show ?thesis by simp
qed

end
